theory Spec2Isabelle
  imports Main "HOL-Library.Word" "HOL-Library.AList"
begin

section \<open>Go runtime notions used by client.go\<close>

subsection \<open>Machine integers, raw JSON, errors\<close>

text \<open>
  Go's \<^verbatim>\<open>int\<close> is a machine integer; on the 64-bit targets it has 64 bits and
  \<^verbatim>\<open>i.id++\<close> wraps around. Comparisons of ids are signed (\<open>sint\<close>).
  \<^verbatim>\<open>json.RawMessage\<close> is a byte slice; its zero value \<^verbatim>\<open>nil\<close> is the empty list.
\<close>

type_synonym go_int = "64 word"
type_synonym RawMessage = string

text \<open>
  \<^verbatim>\<open>ctx.Err()\<close> of a done context is \<^verbatim>\<open>context.Canceled\<close> or
  \<^verbatim>\<open>context.DeadlineExceeded\<close>.
\<close>

datatype cause = Canceled | DeadlineExceeded

text \<open>
  Modelled from the spec: the declarations of \<^verbatim>\<open>InvocationError\<close> and
  \<^verbatim>\<open>DuplicateCallbackError\<close> are not under src/; their fields are the ones client.go fills
  in (method, id, message; method). \<open>ContextError\<close> is an error of package context,
  \<open>MarshalArgs\<close> is \<^verbatim>\<open>fmt.Errorf("failed to marshal args: %w", err)\<close>,
  \<open>UnmarshalMessage\<close> is \<^verbatim>\<open>fmt.Errorf("failed to unmarshal message: %v", err)\<close>,
  \<open>InvalidNumberOfArguments\<close> is the error of \<^verbatim>\<open>unmarshalArgs\<close>, and \<open>External\<close> is an
  error produced by a collaborator outside the repository (encoding/json, net/http, the
  transport). The last four are the errors signalr.go makes with \<^verbatim>\<open>errors.New\<close>: the
  status line of a response, a start response that is not "started", a frame type that is
  not text, and an \<^verbatim>\<open>S\<close> value that is not 1.
\<close>

datatype error =
    External string
  | ContextError cause
  | MarshalArgs error
  | UnmarshalMessage error
  | InvalidNumberOfArguments nat nat
  | InvocationError string go_int string
  | DuplicateCallbackError string
  | StatusError string
  | StartResponse string
  | UnexpectedControlType go_int
  | UnexpectedS go_int

subsection \<open>Cancellation scopes\<close>

text \<open>
  A \<^verbatim>\<open>context.Context\<close> is the chain of cancellation scopes from its own scope up to
  the root; \<^verbatim>\<open>context.Background()\<close> is the empty chain. The store records which scopes
  have been cancelled and why. A context is done as soon as one scope of its chain is;
  its error is the one of the innermost done scope.
\<close>

type_synonym scope = nat
type_synonym "context" = "scope list"
type_synonym scopes = "scope \<rightharpoonup> cause"

fun ctx_Err :: "scopes \<Rightarrow> context \<Rightarrow> cause option" where
  "ctx_Err S [] = None"
| "ctx_Err S (k # ks) = (case S k of Some e \<Rightarrow> Some e | None \<Rightarrow> ctx_Err S ks)"

definition ctx_Done :: "scopes \<Rightarrow> context \<Rightarrow> bool" where
  "ctx_Done S c = (ctx_Err S c \<noteq> None)"

text \<open>
  Calling the \<^verbatim>\<open>CancelFunc\<close> that \<^verbatim>\<open>context.WithCancel\<close> returned together with the
  context \<open>k # parent\<close>: a no-op when the context is already done, otherwise its own scope
  becomes \<open>Canceled\<close>.
\<close>

fun cancel_ctx :: "context \<Rightarrow> scopes \<Rightarrow> scopes" where
  "cancel_ctx [] S = S"
| "cancel_ctx (k # parent) S = (if ctx_Done S (k # parent) then S else S(k \<mapsto> Canceled))"

subsection \<open>Channels\<close>

text \<open>
  A buffered channel: the queued values, the capacity given to \<^verbatim>\<open>make\<close>, and whether
  it has been closed. Channels live in a store, since the registry and the handle returned to
  the caller share them; an address that the store does not hold behaves as the
  \<^verbatim>\<open>nil\<close> channel.
\<close>

record 'a chan =
  buf :: "'a list"
  cap :: nat
  closed :: bool

type_synonym addr = nat

definition make_chan :: "nat \<Rightarrow> 'a chan" where
  "make_chan n = \<lparr>buf = [], cap = n, closed = False\<rparr>"

text \<open>
  What a goroutine's step can do: return, panic (close of a closed or nil channel, send
  on a closed channel, a nil interface), or stay parked in a \<^verbatim>\<open>select\<close> none of whose
  cases can proceed in the given state.
\<close>

datatype 'a go = Return 'a | Panic | Blocked

text \<open>A send can proceed when the buffer has room; on a closed channel it proceeds by panicking.\<close>

definition can_send :: "'a chan option \<Rightarrow> bool" where
  "can_send co = (case co of None \<Rightarrow> False | Some c \<Rightarrow> closed c \<or> length (buf c) < cap c)"

definition send :: "'a \<Rightarrow> 'a chan option \<Rightarrow> 'a chan go" where
  "send v co = (case co of None \<Rightarrow> Blocked
     | Some c \<Rightarrow> if closed c then Panic else Return (c\<lparr>buf := buf c @ [v]\<rparr>))"

definition close :: "'a chan option \<Rightarrow> 'a chan go" where
  "close co = (case co of None \<Rightarrow> Panic
     | Some c \<Rightarrow> if closed c then Panic else Return (c\<lparr>closed := True\<rparr>))"

definition can_recv :: "'a chan option \<Rightarrow> bool" where
  "can_recv co = (case co of None \<Rightarrow> False | Some c \<Rightarrow> buf c \<noteq> [] \<or> closed c)"

text \<open>
  A receive that can proceed: the head of the buffer with \<^verbatim>\<open>ok = true\<close>, or, on a
  closed and drained channel, no value (the caller sees the zero value) with
  \<^verbatim>\<open>ok = false\<close>.
\<close>

definition recv :: "'a chan \<Rightarrow> 'a option \<times> 'a chan" where
  "recv c = (case buf c of [] \<Rightarrow> (None, c) | x # xs \<Rightarrow> (Some x, c\<lparr>buf := xs\<rparr>))"

text \<open>
  \<^verbatim>\<open>select\<close>: among the cases that can proceed (listed in source order) the runtime
  picks one pseudo-randomly; \<open>pick\<close> is that choice. With no such case and no
  \<^verbatim>\<open>default\<close> the goroutine parks.
\<close>

definition go_bind :: "'a go \<Rightarrow> ('a \<Rightarrow> 'b go) \<Rightarrow> 'b go" where
  "go_bind m f = (case m of Return x \<Rightarrow> f x | Panic \<Rightarrow> Panic | Blocked \<Rightarrow> Blocked)"

definition go_select :: "nat \<Rightarrow> 'b list \<Rightarrow> 'b option" where
  "go_select pick ready = (if ready = [] then None else Some (ready ! (pick mod length ready)))"

section \<open>Wire types of client.go\<close>

text \<open>
  Modelled from the spec: the declarations of \<^verbatim>\<open>ClientMsg\<close> and of the \<^verbatim>\<open>Message\<close>
  that client.go decodes are not under src/. The fields are the ones client.go reads and
  writes: hub, method, arguments and invocation id of an outbound message or push
  sub-message; correlation id, result payload, error text and push sub-messages of an inbound
  frame.
\<close>

record ClientMsg =
  Hub :: string
  Method :: string
  Args :: "RawMessage list"
  InvocationID :: go_int

record Frame =
  frame_InvocationID :: go_int
  frame_Result :: RawMessage
  frame_Error :: string
  frame_Messages :: "ClientMsg list"

record invocationResult =
  result :: RawMessage
  err :: "error option"

record callbackResult =
  message :: ClientMsg
  cb_err :: "error option"

definition zero_ClientMsg :: ClientMsg where
  "zero_ClientMsg = \<lparr>Hub = [], Method = [], Args = [], InvocationID = 0\<rparr>"

definition zero_invocationResult :: invocationResult where
  "zero_invocationResult = \<lparr>result = [], err = None\<rparr>"

section \<open>The shared store\<close>

record heap =
  scopes :: scopes
  next_scope :: scope
  inv_chans :: "addr \<rightharpoonup> invocationResult chan"
  cb_chans :: "addr \<rightharpoonup> callbackResult chan"
  next_chan :: addr

definition empty_heap :: heap where
  "empty_heap = \<lparr>scopes = Map.empty, next_scope = 0, inv_chans = Map.empty,
     cb_chans = Map.empty, next_chan = 0\<rparr>"

section \<open>Invocation registry\<close>

text \<open>
  \<^verbatim>\<open>Invocation\<close>: \<open>inv_ctx\<close> and \<open>inv_ch\<close> are \<open>None\<close> for the nil interface and the nil
  channel of the literal \<^verbatim>\<open>&Invocation{err: err}\<close>.
\<close>

record Invocation =
  inv_ctx :: "context option"
  inv_id :: go_int
  inv_method :: string
  inv_ch :: "addr option"
  inv_err :: "error option"

text \<open>
  The registry: the next id and the map from ids to pending invocations. A Go map is an
  association list here, read with \<open>map_of\<close> and written with \<open>AList.update\<close> and
  \<open>AList.delete\<close>; a \<^verbatim>\<open>range\<close> over it visits the list in order (Go leaves the order
  open). The mutex is not modelled: each operation runs as one step.
\<close>

record invocations =
  i_id :: go_int
  i_data :: "(go_int \<times> Invocation) list"

definition newInvocations :: invocations where
  "newInvocations = \<lparr>i_id = 1, i_data = []\<rparr>"

fun invocations_create ::
  "context \<Rightarrow> string \<Rightarrow> heap \<times> invocations \<Rightarrow> Invocation \<times> heap \<times> invocations" where
  "invocations_create ctx method (h, i) =
     (let ident = i_id i;
          i1 = i\<lparr>i_id := ident + 1\<rparr>;
          a = next_chan h;
          h1 = h\<lparr>inv_chans := (inv_chans h)(a \<mapsto> make_chan 1), next_chan := Suc a\<rparr>;
          ivc = \<lparr>inv_ctx = Some ctx, inv_id = ident, inv_method = method,
                 inv_ch = Some a, inv_err = None\<rparr>
      in (ivc, h1, i1\<lparr>i_data := AList.update ident ivc (i_data i1)\<rparr>))"

text \<open>Channel operations through the store.\<close>

definition inv_chan_of :: "heap \<Rightarrow> addr option \<Rightarrow> invocationResult chan option" where
  "inv_chan_of h ao = (case ao of None \<Rightarrow> None | Some a \<Rightarrow> inv_chans h a)"

definition inv_send :: "invocationResult \<Rightarrow> addr option \<Rightarrow> heap \<Rightarrow> heap go" where
  "inv_send v ao h = (case ao of None \<Rightarrow> Blocked
     | Some a \<Rightarrow> go_bind (send v (inv_chans h a))
         (\<lambda>c. Return (h\<lparr>inv_chans := (inv_chans h)(a \<mapsto> c)\<rparr>)))"

definition inv_close :: "addr option \<Rightarrow> heap \<Rightarrow> heap go" where
  "inv_close ao h = (case ao of None \<Rightarrow> Panic
     | Some a \<Rightarrow> go_bind (close (inv_chans h a))
         (\<lambda>c. Return (h\<lparr>inv_chans := (inv_chans h)(a \<mapsto> c)\<rparr>)))"

fun invocations_remove :: "go_int \<Rightarrow> heap \<times> invocations \<Rightarrow> (heap \<times> invocations) go" where
  "invocations_remove ident (h, i) =
     (case map_of (i_data i) ident of
        None \<Rightarrow> Return (h, i)
      | Some ivc \<Rightarrow>
          go_bind (inv_close (inv_ch ivc) h)
            (\<lambda>h1. Return (h1, i\<lparr>i_data := AList.delete ident (i_data i)\<rparr>)))"

datatype inv_case = CtxDone | SendResult

text \<open>
  \<^verbatim>\<open>process\<close>: the two cases of its \<^verbatim>\<open>select\<close> are the caller's scope being done and
  the send of the result on the invocation's channel.
\<close>

fun invocations_process :: "nat \<Rightarrow> Frame \<Rightarrow> heap \<times> invocations \<Rightarrow> (heap \<times> invocations) go" where
  "invocations_process pick msg (h, i) =
     (let ident = frame_InvocationID msg in
      case map_of (i_data i) ident of
        None \<Rightarrow> Return (h, i)
      | Some ivc \<Rightarrow>
          (let e = (if frame_Error msg \<noteq> []
                    then Some (InvocationError (inv_method ivc) ident (frame_Error msg))
                    else None);
               res = \<lparr>result = frame_Result msg, err = e\<rparr>
           in case inv_ctx ivc of
                None \<Rightarrow> Panic
              | Some ctx \<Rightarrow>
                  go_bind
                    (case go_select pick
                            ((if ctx_Done (scopes h) ctx then [CtxDone] else []) @
                             (if can_send (inv_chan_of h (inv_ch ivc)) then [SendResult] else [])) of
                       None \<Rightarrow> Blocked
                     | Some CtxDone \<Rightarrow> Return h
                     | Some SendResult \<Rightarrow> inv_send res (inv_ch ivc) h)
                    (\<lambda>h1. go_bind (inv_close (inv_ch ivc) h1)
                       (\<lambda>h2. Return (h2, i\<lparr>i_data := AList.delete ident (i_data i)\<rparr>)))))"

fun close_all :: "Invocation list \<Rightarrow> heap \<Rightarrow> heap go" where
  "close_all [] h = Return h"
| "close_all (ivc # ivcs) h = go_bind (inv_close (inv_ch ivc) h) (close_all ivcs)"

fun invocations_removeAll :: "heap \<times> invocations \<Rightarrow> (heap \<times> invocations) go" where
  "invocations_removeAll (h, i) =
     go_bind (close_all (map snd (i_data i)) h) (\<lambda>h1. Return (h1, i\<lparr>i_data := []\<rparr>))"

subsection \<open>The handle: Exec and Unmarshal\<close>

definition Exec :: "Invocation \<Rightarrow> error option" where
  "Exec r = inv_err r"

text \<open>
  What \<^verbatim>\<open>Unmarshal\<close> returns: an error of its own, or whatever
  \<^verbatim>\<open>json.Unmarshal(res.result, dest)\<close> returns for the payload received
  (encoding/json is outside the repository).
\<close>

datatype unmarshal_result = Fails error | Decodes RawMessage

datatype recv_case = ScopeDone cause | Received

fun Unmarshal :: "nat \<Rightarrow> Invocation \<Rightarrow> heap \<Rightarrow> (unmarshal_result \<times> heap) go" where
  "Unmarshal pick r h =
     (case inv_err r of
        Some e \<Rightarrow> Return (Fails e, h)
      | None \<Rightarrow>
         (case inv_ctx r of
            None \<Rightarrow> Panic
          | Some ctx \<Rightarrow>
             (case go_select pick
                     ((case ctx_Err (scopes h) ctx of Some ca \<Rightarrow> [ScopeDone ca] | None \<Rightarrow> []) @
                      (if can_recv (inv_chan_of h (inv_ch r)) then [Received] else [])) of
                None \<Rightarrow> Blocked
              | Some (ScopeDone ca) \<Rightarrow> Return (Fails (ContextError ca), h)
              | Some Received \<Rightarrow>
                 (case inv_ch r of
                    None \<Rightarrow> Blocked
                  | Some a \<Rightarrow>
                     (case inv_chans h a of
                        None \<Rightarrow> Blocked
                      | Some c \<Rightarrow>
                         (let res = (case fst (recv c) of None \<Rightarrow> zero_invocationResult | Some v \<Rightarrow> v);
                              h1 = h\<lparr>inv_chans := (inv_chans h)(a \<mapsto> snd (recv c))\<rparr>
                          in case err res of
                               Some e \<Rightarrow> Return (Fails e, h1)
                             | None \<Rightarrow> Return (Decodes (result res), h1)))))))"

subsection \<open>Invoke\<close>

text \<open>\<^verbatim>\<open>json.Marshal\<close> is a parameter: it yields the bytes of a value or an error.\<close>

fun marshalArgs :: "('v \<Rightarrow> error + RawMessage) \<Rightarrow> 'v list \<Rightarrow> error + RawMessage list" where
  "marshalArgs json_Marshal [] = Inr []"
| "marshalArgs json_Marshal (v # vs) =
     (case json_Marshal v of
        Inl e \<Rightarrow> Inl e
      | Inr d \<Rightarrow> (case marshalArgs json_Marshal vs of
                    Inl e \<Rightarrow> Inl e
                  | Inr ds \<Rightarrow> Inr (d # ds)))"

text \<open>
  Modelled from the spec: \<^verbatim>\<open>Conn\<close> is not under src/; the spec makes the transport an
  external duplex channel. The model logs every message handed to \<^verbatim>\<open>WriteMessage\<close>;
  whether that call fails is decided by the transport, the parameter \<open>WriteMessage\<close>.
\<close>

record Conn =
  writes :: "ClientMsg list"

definition failed_Invocation :: "error \<Rightarrow> Invocation" where
  "failed_Invocation e =
     \<lparr>inv_ctx = None, inv_id = 0, inv_method = [], inv_ch = None, inv_err = Some e\<rparr>"

fun Invoke ::
  "('v \<Rightarrow> error + RawMessage) \<Rightarrow> (ClientMsg \<Rightarrow> error option) \<Rightarrow> string \<Rightarrow>
   context \<Rightarrow> string \<Rightarrow> 'v list \<Rightarrow> heap \<times> Conn \<times> invocations \<Rightarrow>
   (Invocation \<times> heap \<times> Conn \<times> invocations) go" where
  "Invoke json_Marshal WriteMessage hub ctx method args (h, conn, i) =
     (case marshalArgs json_Marshal args of
        Inl e \<Rightarrow> Return (failed_Invocation (MarshalArgs e), h, conn, i)
      | Inr rawArgs \<Rightarrow>
         (case invocations_create ctx method (h, i) of
            (ivc, h1, i1) \<Rightarrow>
              (let req = \<lparr>Hub = hub, Method = method, Args = rawArgs, InvocationID = inv_id ivc\<rparr>;
                   conn1 = conn\<lparr>writes := writes conn @ [req]\<rparr>
               in case WriteMessage req of
                    Some e \<Rightarrow>
                      go_bind (invocations_remove (inv_id ivc) (h1, i1))
                        (\<lambda>s. Return (failed_Invocation e, fst s, conn1, snd s))
                  | None \<Rightarrow> Return (ivc, h1, conn1, i1))))"

section \<open>Callback registry\<close>

text \<open>
  \<^verbatim>\<open>CallbackStream\<close>: \<open>cs_ctx\<close> is the child context made by
  \<^verbatim>\<open>context.WithCancel\<close>, own scope first; the \<^verbatim>\<open>cancel\<close> field is the
  \<^verbatim>\<open>CancelFunc\<close> of that context, \<open>cancel_ctx (cs_ctx s)\<close>.
\<close>

record CallbackStream =
  cs_ctx :: "context"
  cs_ch :: addr

record callbacks =
  c_maxMessageProcessDuration :: int
  c_data :: "(string \<times> CallbackStream) list"

definition newCallbacks :: "int \<Rightarrow> callbacks" where
  "newCallbacks maxMessageProcessDuration =
     \<lparr>c_maxMessageProcessDuration = maxMessageProcessDuration, c_data = []\<rparr>"

text \<open>
  \<^verbatim>\<open>create\<close>: the \<^verbatim>\<open>select\<close> with a \<^verbatim>\<open>default\<close> lets a done entry be
  replaced and refuses a live one. The new scope starts not cancelled; the new channel has
  16 slots.
\<close>

fun callbacks_create ::
  "context \<Rightarrow> string \<Rightarrow> heap \<times> callbacks \<Rightarrow> (error + CallbackStream) \<times> heap \<times> callbacks" where
  "callbacks_create ctx method (h, c) =
     (if (case map_of (c_data c) method of
            None \<Rightarrow> False
          | Some cb \<Rightarrow> \<not> ctx_Done (scopes h) (cs_ctx cb))
      then (Inl (DuplicateCallbackError method), h, c)
      else
        (let k = next_scope h;
             a = next_chan h;
             res = \<lparr>cs_ctx = k # ctx, cs_ch = a\<rparr>;
             h1 = h\<lparr>scopes := (scopes h)(k := None), next_scope := Suc k,
                    cb_chans := (cb_chans h)(a \<mapsto> make_chan 16), next_chan := Suc a\<rparr>
         in (Inr res, h1, c\<lparr>c_data := AList.update method res (c_data c)\<rparr>)))"

definition cb_send :: "callbackResult \<Rightarrow> addr \<Rightarrow> heap \<Rightarrow> heap go" where
  "cb_send v a h =
     go_bind (send v (cb_chans h a)) (\<lambda>c. Return (h\<lparr>cb_chans := (cb_chans h)(a \<mapsto> c)\<rparr>))"

definition cb_close :: "addr \<Rightarrow> heap \<Rightarrow> heap go" where
  "cb_close a h =
     go_bind (close (cb_chans h a)) (\<lambda>c. Return (h\<lparr>cb_chans := (cb_chans h)(a \<mapsto> c)\<rparr>))"

subsection \<open>Other goroutines\<close>

text \<open>
  While the router waits in a \<^verbatim>\<open>select\<close>, callers run: a scope gets cancelled (a
  \<^verbatim>\<open>CancelFunc\<close> is called or a deadline passes; the first cause stays), or a subscriber
  receives the oldest message of its stream's buffer. They cannot touch the registry, whose
  lock the router holds.
\<close>

datatype env_action = EnvCancel scope cause | EnvRecv addr

fun env_step :: "env_action \<Rightarrow> heap \<Rightarrow> heap" where
  "env_step (EnvCancel k ca) h =
     (if scopes h k = None then h\<lparr>scopes := (scopes h)(k \<mapsto> ca)\<rparr> else h)"
| "env_step (EnvRecv a) h =
     (case cb_chans h a of
        None \<Rightarrow> h
      | Some c \<Rightarrow> h\<lparr>cb_chans := (cb_chans h)(a \<mapsto> snd (recv c))\<rparr>)"

fun interfere :: "env_action list \<Rightarrow> heap \<Rightarrow> heap" where
  "interfere [] h = h"
| "interfere (e # es) h = interfere es (env_step e h)"

text \<open>
  What decides one \<^verbatim>\<open>select\<close> of the router: what the other goroutines did before it
  commits, whether the timer of \<^verbatim>\<open>context.WithTimeout\<close> has fired by then, and the
  runtime's pick among the cases that can proceed.
\<close>

record race =
  r_before :: "env_action list"
  r_expired :: bool
  r_pick :: nat

datatype cb_case = StreamDone | Deliver | Deadline

text \<open>
  The cases of the \<^verbatim>\<open>select\<close> of \<^verbatim>\<open>process\<close> that can proceed. The timeout context
  \<^verbatim>\<open>wrCtx\<close> is a child of the stream's context: it is done when the stream's context is,
  when the duration is not positive, when its timer has fired, and, since the wait ends
  no later than the deadline, whenever nothing else can proceed. \<^verbatim>\<open>wrCtx\<close> never leaves the
  iteration, so its scope is not recorded in the store.
\<close>

definition process_ready :: "int \<Rightarrow> bool \<Rightarrow> heap \<Rightarrow> CallbackStream \<Rightarrow> cb_case list" where
  "process_ready d fired h callback =
     (let done = ctx_Done (scopes h) (cs_ctx callback);
          room = can_send (cb_chans h (cs_ch callback))
      in (if done then [StreamDone] else []) @
         (if room then [Deliver] else []) @
         (if done \<or> d \<le> 0 \<or> fired \<or> \<not> room then [Deadline] else []))"

text \<open>One iteration of the loop of \<^verbatim>\<open>process\<close> for a sub-message whose method is registered.\<close>

definition callbacks_deliver ::
  "race \<Rightarrow> ClientMsg \<Rightarrow> CallbackStream \<Rightarrow> heap \<times> callbacks \<Rightarrow> (heap \<times> callbacks) go" where
  "callbacks_deliver rc clientMsg callback s =
     (let h = interfere (r_before rc) (fst s);
          c = snd s;
          method = Method clientMsg
      in case go_select (r_pick rc)
                (process_ready (c_maxMessageProcessDuration c) (r_expired rc) h callback) of
           None \<Rightarrow> Blocked
         | Some StreamDone \<Rightarrow>
             go_bind (cb_close (cs_ch callback) h)
               (\<lambda>h1. Return (h1, c\<lparr>c_data := AList.delete method (c_data c)\<rparr>))
         | Some Deliver \<Rightarrow>
             go_bind (cb_send \<lparr>message = clientMsg, cb_err = None\<rparr> (cs_ch callback) h)
               (\<lambda>h1. Return (h1, c))
         | Some Deadline \<Rightarrow>
             go_bind
               (cb_close (cs_ch callback)
                  (h\<lparr>scopes := cancel_ctx (cs_ctx callback) (scopes h)\<rparr>))
               (\<lambda>h1. Return (h1, c\<lparr>c_data := AList.delete method (c_data c)\<rparr>)))"

text \<open>
  The loop over the sub-messages, in the order of the frame. \<open>sched n\<close> decides the
  \<open>n\<close>-th \<^verbatim>\<open>select\<close> executed; a sub-message without an entry executes none.
\<close>

fun deliver_all ::
  "(nat \<Rightarrow> race) \<Rightarrow> nat \<Rightarrow> ClientMsg list \<Rightarrow> heap \<times> callbacks \<Rightarrow> (heap \<times> callbacks) go" where
  "deliver_all sched n [] s = Return s"
| "deliver_all sched n (clientMsg # rest) s =
     (case map_of (c_data (snd s)) (Method clientMsg) of
        None \<Rightarrow> deliver_all sched n rest s
      | Some callback \<Rightarrow>
          go_bind (callbacks_deliver (sched n) clientMsg callback s)
            (deliver_all sched (Suc n) rest))"

definition callbacks_process ::
  "(nat \<Rightarrow> race) \<Rightarrow> Frame \<Rightarrow> heap \<times> callbacks \<Rightarrow> (heap \<times> callbacks) go" where
  "callbacks_process sched msg s =
     (if frame_Messages msg = [] then Return s
      else deliver_all sched 0 (frame_Messages msg) s)"

datatype teardown_case = AlreadyDone | SendCanceled

text \<open>
  \<^verbatim>\<open>removeAll\<close>: for every entry a \<^verbatim>\<open>select\<close> between the stream's scope being done
  and the send of a \<^verbatim>\<open>context.Canceled\<close> result, without a deadline; then the channel is
  closed. The entries are visited in the order of the list.
\<close>

fun cancel_all :: "(nat \<Rightarrow> race) \<Rightarrow> nat \<Rightarrow> CallbackStream list \<Rightarrow> heap \<Rightarrow> heap go" where
  "cancel_all sched n [] h = Return h"
| "cancel_all sched n (callback # rest) h0 =
     (let h = interfere (r_before (sched n)) h0 in
      go_bind
        (case go_select (r_pick (sched n))
                ((if ctx_Done (scopes h) (cs_ctx callback) then [AlreadyDone] else []) @
                 (if can_send (cb_chans h (cs_ch callback)) then [SendCanceled] else [])) of
           None \<Rightarrow> Blocked
         | Some AlreadyDone \<Rightarrow> Return h
         | Some SendCanceled \<Rightarrow>
             cb_send \<lparr>message = zero_ClientMsg, cb_err = Some (ContextError Canceled)\<rparr>
               (cs_ch callback) h)
        (\<lambda>h1. go_bind (cb_close (cs_ch callback) h1) (cancel_all sched (Suc n) rest)))"

fun callbacks_removeAll :: "(nat \<Rightarrow> race) \<Rightarrow> heap \<times> callbacks \<Rightarrow> (heap \<times> callbacks) go" where
  "callbacks_removeAll sched (h, c) =
     go_bind (cancel_all sched 0 (map snd (c_data c)) h) (\<lambda>h1. Return (h1, c\<lparr>c_data := []\<rparr>))"

subsection \<open>The stream handle\<close>

text \<open>
  \<^verbatim>\<open>readResult\<close>: first the non-blocking check of the scope, then the
  \<^verbatim>\<open>select\<close> between the scope and the channel.
\<close>

definition readResult :: "nat \<Rightarrow> CallbackStream \<Rightarrow> heap \<Rightarrow> (callbackResult \<times> heap) go" where
  "readResult pick s h =
     (case ctx_Err (scopes h) (cs_ctx s) of
        Some ca \<Rightarrow> Return (\<lparr>message = zero_ClientMsg, cb_err = Some (ContextError ca)\<rparr>, h)
      | None \<Rightarrow>
         (case go_select pick
                 ((case ctx_Err (scopes h) (cs_ctx s) of Some ca \<Rightarrow> [ScopeDone ca] | None \<Rightarrow> []) @
                  (if can_recv (cb_chans h (cs_ch s)) then [Received] else [])) of
            None \<Rightarrow> Blocked
          | Some (ScopeDone ca) \<Rightarrow>
              Return (\<lparr>message = zero_ClientMsg, cb_err = Some (ContextError ca)\<rparr>, h)
          | Some Received \<Rightarrow>
             (case cb_chans h (cs_ch s) of
                None \<Rightarrow> Blocked
              | Some c \<Rightarrow>
                 (case fst (recv c) of
                    None \<Rightarrow>
                      Return (\<lparr>message = zero_ClientMsg, cb_err = Some (ContextError Canceled)\<rparr>, h)
                  | Some res \<Rightarrow>
                      Return (res, h\<lparr>cb_chans := (cb_chans h)(cs_ch s \<mapsto> snd (recv c))\<rparr>)))))"

text \<open>\<^verbatim>\<open>json.Unmarshal\<close> into a destination is a parameter that yields its error.\<close>

fun unmarshal_each :: "(RawMessage \<Rightarrow> 'd \<Rightarrow> error option) \<Rightarrow> RawMessage list \<Rightarrow> 'd list \<Rightarrow> error option" where
  "unmarshal_each json_Unmarshal (v # vs) (d # ds) =
     (case json_Unmarshal v d of Some e \<Rightarrow> Some e | None \<Rightarrow> unmarshal_each json_Unmarshal vs ds)"
| "unmarshal_each json_Unmarshal vs ds = None"

definition unmarshalArgs :: "(RawMessage \<Rightarrow> 'd \<Rightarrow> error option) \<Rightarrow> RawMessage list \<Rightarrow> 'd list \<Rightarrow> error option" where
  "unmarshalArgs json_Unmarshal src dest =
     (if length src \<noteq> length dest then Some (InvalidNumberOfArguments (length src) (length dest))
      else unmarshal_each json_Unmarshal src dest)"

text \<open>\<^verbatim>\<open>Read\<close>: \<open>args = None\<close> is the nil slice of a call without arguments.\<close>

definition Read ::
  "(RawMessage \<Rightarrow> 'd \<Rightarrow> error option) \<Rightarrow> nat \<Rightarrow> 'd list option \<Rightarrow> CallbackStream \<Rightarrow> heap \<Rightarrow>
   (error option \<times> heap) go" where
  "Read json_Unmarshal pick args s h =
     go_bind (readResult pick s h)
       (\<lambda>r. case cb_err (fst r) of
               Some e \<Rightarrow> Return (Some e, snd r)
             | None \<Rightarrow>
                (case args of
                   None \<Rightarrow> Return (None, snd r)
                 | Some dest \<Rightarrow>
                    (case unmarshalArgs json_Unmarshal (Args (message (fst r))) dest of
                       Some e \<Rightarrow> Return (Some (UnmarshalMessage e), snd r)
                     | None \<Rightarrow> Return (None, snd r))))"

definition CallbackStream_Close :: "CallbackStream \<Rightarrow> heap \<Rightarrow> heap" where
  "CallbackStream_Close s h = h\<lparr>scopes := cancel_ctx (cs_ctx s) (scopes h)\<rparr>"

subsection \<open>The router's shutdown branch\<close>

text \<open>
  The branch \<^verbatim>\<open>case <-ctx.Done()\<close> of \<^verbatim>\<open>Run\<close>: \<^verbatim>\<open>removeAll\<close> on the invocations,
  then on the callbacks (closing the transport is outside the model).
\<close>

fun shutdown ::
  "(nat \<Rightarrow> race) \<Rightarrow> heap \<times> invocations \<times> callbacks \<Rightarrow> (heap \<times> invocations \<times> callbacks) go" where
  "shutdown sched (h, i, c) =
     go_bind (invocations_removeAll (h, i))
       (\<lambda>s1. go_bind (callbacks_removeAll sched (fst s1, c))
          (\<lambda>s2. Return (fst s2, snd s1, snd s2)))"

section \<open>The handshake of signalr.go\<close>

subsection \<open>URLs\<close>

text \<open>
  \<^verbatim>\<open>url.QueryEscape\<close> of the standard library: letters, digits and \<^verbatim>\<open>- _ . ~\<close> stay,
  a space becomes \<^verbatim>\<open>+\<close>, every other byte becomes \<^verbatim>\<open>%\<close> and two upper-case hex digits.
\<close>

definition unreserved :: "char \<Rightarrow> bool" where
  "unreserved c =
     (let n = (of_char c :: nat)
      in (97 \<le> n \<and> n \<le> 122) \<or> (65 \<le> n \<and> n \<le> 90) \<or> (48 \<le> n \<and> n \<le> 57) \<or>
         c = CHR ''-'' \<or> c = CHR ''_'' \<or> c = CHR ''.'' \<or> c = CHR ''~'')"

definition upperhex :: "nat \<Rightarrow> char" where
  "upperhex n = ''0123456789ABCDEF'' ! n"

definition escape_byte :: "char \<Rightarrow> string" where
  "escape_byte c =
     (if c = CHR '' '' then ''+''
      else if unreserved c then [c]
      else [CHR ''%'', upperhex ((of_char c :: nat) div 16), upperhex ((of_char c :: nat) mod 16)])"

definition QueryEscape :: "string \<Rightarrow> string" where
  "QueryEscape s = concat (map escape_byte s)"

record URL =
  u_Scheme :: string
  u_Host :: string
  u_Path :: string
  u_RawQuery :: string

text \<open>
  \<^verbatim>\<open>url.Values.Encode\<close> writes \<^verbatim>\<open>key=value\<close> pairs sorted by key, joined by
  \<^verbatim>\<open>&\<close>, keys and values escaped. \<open>encode_pairs\<close> takes the pairs already in key order.
\<close>

fun encode_pairs :: "(string \<times> string) list \<Rightarrow> string" where
  "encode_pairs [] = []"
| "encode_pairs [kv] = QueryEscape (fst kv) @ ''='' @ QueryEscape (snd kv)"
| "encode_pairs (kv # rest) =
     QueryEscape (fst kv) @ ''='' @ QueryEscape (snd kv) @ ''&'' @ encode_pairs rest"

subsection \<open>The client\<close>

text \<open>
  The websocket connection (gorilla/websocket, outside the repository): the results its
  \<^verbatim>\<open>ReadMessage\<close> calls will give, in order; each is an error or a frame with its type and
  payload. A read on a connection that never gets another frame does not return.
\<close>

datatype read_result = ReadFails error | ReadFrame go_int string

record websocket_Conn =
  incoming :: "read_result list"

definition ReadMessage :: "websocket_Conn \<Rightarrow> (read_result \<times> websocket_Conn) option" where
  "ReadMessage conn =
     (case incoming conn of
        [] \<Rightarrow> None
      | r # rs \<Rightarrow> Some (r, conn\<lparr>incoming := rs\<rparr>))"

definition TextMessage :: go_int where
  "TextMessage = 1"

text \<open>
  \<^verbatim>\<open>Client\<close> of signalr.go, without the fields the handshake steps below never touch
  (\<^verbatim>\<open>HTTPClient\<close>, \<^verbatim>\<open>TLSClientConfig\<close>, \<^verbatim>\<open>messages\<close>). \<open>Conn = None\<close> is the nil
  pointer.
\<close>

record Client =
  Host :: string
  Endpoint :: string
  Protocol :: string
  ConnectionData :: string
  Conn :: "websocket_Conn option"
  Scheme :: string
  connectionToken :: string
  connectionID :: string

definition HTTPS :: string where "HTTPS = ''https''"
definition HTTP :: string where "HTTP = ''http''"
definition WSS :: string where "WSS = ''wss''"
definition WS :: string where "WS = ''ws''"

text \<open>
  \<^verbatim>\<open>Message\<close> of signalr.go; \<^verbatim>\<open>hubs.ClientMsg\<close> is outside the repository and never
  inspected by the handshake.
\<close>

record Message =
  msg_C :: string
  msg_M :: "ClientMsg list"
  msg_S :: go_int
  msg_G :: string

text \<open>
  \<^verbatim>\<open>makeURL\<close>. The parameters it sets are \<^verbatim>\<open>connectionData\<close>, \<^verbatim>\<open>clientProtocol\<close>,
  \<^verbatim>\<open>connectionToken\<close> when the token is not empty, and \<^verbatim>\<open>transport\<close> for start and
  connect; in key order: clientProtocol, connectionData, connectionToken, transport.
\<close>

definition makeURL :: "Client \<Rightarrow> string \<Rightarrow> URL" where
  "makeURL c command =
     (let params = [(''clientProtocol'', Protocol c), (''connectionData'', ConnectionData c)] @
                   (if connectionToken c \<noteq> [] then [(''connectionToken'', connectionToken c)] else []);
          transport = [(''transport'', ''webSockets'')]
      in if command = ''negotiate'' then
           \<lparr>u_Scheme = Scheme c, u_Host = Host c, u_Path = Endpoint c @ ''/negotiate'',
             u_RawQuery = encode_pairs params\<rparr>
         else if command = ''start'' then
           \<lparr>u_Scheme = Scheme c, u_Host = Host c, u_Path = Endpoint c @ ''/start'',
             u_RawQuery = encode_pairs (params @ transport)\<rparr>
         else if command = ''connect'' then
           \<lparr>u_Scheme = (if Scheme c = HTTPS then WSS else WS), u_Host = Host c,
             u_Path = Endpoint c @ ''/connect'', u_RawQuery = encode_pairs (params @ transport)\<rparr>
         else
           \<lparr>u_Scheme = [], u_Host = Host c, u_Path = Endpoint c, u_RawQuery = encode_pairs params\<rparr>)"

text \<open>\<^verbatim>\<open>New\<close>: the client as the constructor makes it.\<close>

definition New :: "string \<Rightarrow> string \<Rightarrow> string \<Rightarrow> string \<Rightarrow> Client" where
  "New host protocol endpoint connectionData =
     \<lparr>Host = host, Endpoint = endpoint, Protocol = protocol,
      ConnectionData = QueryEscape connectionData, Conn = None, Scheme = HTTPS,
      connectionToken = [], connectionID = []\<rparr>"

subsection \<open>HTTP\<close>

text \<open>
  What \<^verbatim>\<open>HTTPClient.Get\<close> gives: an error, or a response with its status code, its status
  line, and what \<^verbatim>\<open>ioutil.ReadAll\<close> of its body gives. The server and the JSON decoder are
  parameters of the steps.
\<close>

record Response =
  StatusCode :: go_int
  Status :: string
  Body :: "error + string"

type_synonym http_result = "error + Response"

text \<open>The fields of the negotiate response that are read; the others are decoded and dropped.\<close>

record negotiated =
  neg_URL :: string
  neg_ConnectionToken :: string
  neg_ConnectionID :: string

text \<open>What a run of \<^verbatim>\<open>Negotiate\<close> did besides returning: its requests and its sleeps (seconds).\<close>

record effects =
  requests :: "URL list"
  sleeps :: "nat list"

subsection \<open>Negotiate\<close>

text \<open>
  The loop \<^verbatim>\<open>for i := 0; i < 5; i++\<close>, with the named result \<^verbatim>\<open>err\<close> carried along.
  \<open>Get i u\<close> is what the \<open>i\<close>-th request of this run returns. Tracing and the deferred
  closing of the response bodies are left out.
\<close>

function negotiate_loop ::
  "(string \<Rightarrow> error + negotiated) \<Rightarrow> (nat \<Rightarrow> URL \<Rightarrow> http_result) \<Rightarrow> URL \<Rightarrow> nat \<Rightarrow>
   error option \<times> Client \<times> effects \<Rightarrow> error option \<times> Client \<times> effects" where
  "negotiate_loop json_Unmarshal Get u i s =
     (if i < 5 then
        (let c = fst (snd s);
             fx = (snd (snd s))\<lparr>requests := requests (snd (snd s)) @ [u]\<rparr>
         in case Get i u of
              Inl e \<Rightarrow> (Some e, c, fx)
            | Inr resp \<Rightarrow>
               if StatusCode resp = 200 then
                 (case Body resp of
                    Inl e \<Rightarrow> (Some e, c, fx)
                  | Inr body \<Rightarrow>
                     (case json_Unmarshal body of
                        Inl e \<Rightarrow> (Some e, c, fx)
                      | Inr parsed \<Rightarrow>
                          (None,
                           c\<lparr>connectionToken := QueryEscape (neg_ConnectionToken parsed),
                             connectionID := neg_ConnectionID parsed,
                             Endpoint := neg_URL parsed\<rparr>,
                           fx)))
               else if StatusCode resp = 503 then
                 (Some (StatusError (Status resp)), c, fx)
               else
                 negotiate_loop json_Unmarshal Get u (Suc i)
                   (Some (StatusError (Status resp)), c, fx\<lparr>sleeps := sleeps fx @ [60]\<rparr>))
      else s)"
  by pat_completeness auto
termination
  by (relation "measure (\<lambda>(json_Unmarshal, Get, u, i, s). 5 - i)") auto

definition Negotiate ::
  "(string \<Rightarrow> error + negotiated) \<Rightarrow> (nat \<Rightarrow> URL \<Rightarrow> http_result) \<Rightarrow> Client \<Rightarrow>
   error option \<times> Client \<times> effects" where
  "Negotiate json_Unmarshal Get c =
     (let c0 = c\<lparr>connectionToken := []\<rparr>
      in negotiate_loop json_Unmarshal Get (makeURL c0 ''negotiate'') 0
           (None, c0, \<lparr>requests = [], sleeps = []\<rparr>))"

subsection \<open>Start\<close>

text \<open>
  \<open>json_Response\<close> decodes the body into the \<^verbatim>\<open>Response\<close> field, \<open>json_Message\<close> decodes a
  frame into a \<^verbatim>\<open>Message\<close>. The result holds the error, the client, and the connection
  after the read.
\<close>

definition Start ::
  "(string \<Rightarrow> error + string) \<Rightarrow> (string \<Rightarrow> error + Message) \<Rightarrow> (URL \<Rightarrow> http_result) \<Rightarrow>
   Client \<Rightarrow> websocket_Conn \<Rightarrow> (error option \<times> Client \<times> websocket_Conn) go" where
  "Start json_Response json_Message Get c conn =
     (case Get (makeURL c ''start'') of
        Inl e \<Rightarrow> Return (Some e, c, conn)
      | Inr resp \<Rightarrow>
         (case Body resp of
            Inl e \<Rightarrow> Return (Some e, c, conn)
          | Inr body \<Rightarrow>
             (case json_Response body of
                Inl e \<Rightarrow> Return (Some e, c, conn)
              | Inr response \<Rightarrow>
                 if response \<noteq> ''started'' then Return (Some (StartResponse response), c, conn)
                 else
                   (case ReadMessage conn of
                      None \<Rightarrow> Blocked
                    | Some (ReadFails e, conn1) \<Rightarrow> Return (Some e, c, conn1)
                    | Some (ReadFrame t p, conn1) \<Rightarrow>
                       if t \<noteq> TextMessage then Return (Some (UnexpectedControlType t), c, conn1)
                       else
                         (case json_Message p of
                            Inl e \<Rightarrow> Return (Some e, c, conn1)
                          | Inr pcm \<Rightarrow>
                             if msg_S pcm \<noteq> 1 then Return (Some (UnexpectedS (msg_S pcm)), c, conn1)
                             else Return (None, c\<lparr>Conn := Some conn1\<rparr>, conn1))))))"

section \<open>Runs and invariants\<close>


text \<open>
  A registered invocation as \<^verbatim>\<open>create\<close> leaves it: with a context, without an error, on
  an allocated channel that is open, empty and has one slot.
\<close>

definition pending :: "heap \<Rightarrow> Invocation \<Rightarrow> bool" where
  "pending h ivc =
     (inv_ctx ivc \<noteq> None \<and> inv_err ivc = None \<and>
      (case inv_ch ivc of
         None \<Rightarrow> False
       | Some a \<Rightarrow> a < next_chan h \<and>
           (case inv_chans h a of
              None \<Rightarrow> False
            | Some q \<Rightarrow> \<not> closed q \<and> buf q = [] \<and> cap q = 1)))"

text \<open>
  The invariant of the invocation registry: one entry per id, stored under its own id, each
  pending, no two on the same channel.
\<close>

definition wf_invocations :: "heap \<Rightarrow> invocations \<Rightarrow> bool" where
  "wf_invocations h i =
     (distinct (map fst (i_data i)) \<and>
      distinct (map (\<lambda>e. inv_ch (snd e)) (i_data i)) \<and>
      list_all (\<lambda>e. inv_id (snd e) = fst e \<and> pending h (snd e)) (i_data i))"

text \<open>The result of \<^verbatim>\<open>process\<close> for a frame and a pending invocation.\<close>

definition result_of :: "Frame \<Rightarrow> Invocation \<Rightarrow> invocationResult" where
  "result_of msg ivc =
     \<lparr>result = frame_Result msg,
      err = (if frame_Error msg \<noteq> []
             then Some (InvocationError (inv_method ivc) (frame_InvocationID msg) (frame_Error msg))
             else None)\<rparr>"

text \<open>The channel of an invocation that was closed without a result.\<close>

definition closed_slot :: "invocationResult chan" where
  "closed_slot = \<lparr>buf = [], cap = 1, closed = True\<rparr>"

subsection \<open>Example states\<close>

text \<open>
  A store in which the caller's scope 0 has been cancelled, and the state after one
  \<^verbatim>\<open>create\<close> for method Foo on a new registry.
\<close>

definition cancelled_heap :: heap where
  "cancelled_heap = empty_heap\<lparr>scopes := [0 \<mapsto> Canceled], next_scope := 1\<rparr>"

definition one_pending :: "context \<Rightarrow> heap \<Rightarrow> Invocation \<times> heap \<times> invocations" where
  "one_pending ctx h = invocations_create ctx ''Foo'' (h, newInvocations)"

definition reply :: "go_int \<Rightarrow> Frame" where
  "reply k = \<lparr>frame_InvocationID = k, frame_Result = ''42'', frame_Error = [], frame_Messages = []\<rparr>"

text \<open>
  A registered stream as \<^verbatim>\<open>create\<close> makes it and deliveries keep it: with a scope of its
  own, on an allocated channel that is open, has 16 slots and holds no more than 16 results.
\<close>

definition open_stream :: "heap \<Rightarrow> CallbackStream \<Rightarrow> bool" where
  "open_stream h s =
     (cs_ctx s \<noteq> [] \<and> cs_ch s < next_chan h \<and>
      (case cb_chans h (cs_ch s) of
         None \<Rightarrow> False
       | Some q \<Rightarrow> \<not> closed q \<and> cap q = 16 \<and> length (buf q) \<le> 16))"

text \<open>The invariant of the callback registry: one entry per method, no two on the same channel.\<close>

definition wf_callbacks :: "heap \<Rightarrow> callbacks \<Rightarrow> bool" where
  "wf_callbacks h c =
     (distinct (map fst (c_data c)) \<and>
      distinct (map (\<lambda>e. cs_ch (snd e)) (c_data c)) \<and>
      list_all (\<lambda>e. open_stream h (snd e)) (c_data c))"

text \<open>A schedule without interference, whose timers have not fired, picking the first case.\<close>

definition quiet :: "nat \<Rightarrow> race" where
  "quiet n = \<lparr>r_before = [], r_expired = False, r_pick = 0\<rparr>"

text \<open>A push sub-message for a method.\<close>

definition push :: "string \<Rightarrow> ClientMsg" where
  "push m = \<lparr>Hub = ''hub'', Method = m, Args = [], InvocationID = 0\<rparr>"

text \<open>
  The state after one subscription to the method tick on a new registry, made with the
  background context; and the stream it returns.
\<close>

definition subscribed :: "(error + CallbackStream) \<times> heap \<times> callbacks" where
  "subscribed = callbacks_create [] ''tick'' (empty_heap, newCallbacks 5)"

definition tick_stream :: CallbackStream where
  "tick_stream = \<lparr>cs_ctx = [0], cs_ch = 0\<rparr>"

text \<open>The same state with the buffer of the tick stream full: the subscriber has stalled.\<close>

definition stalled_heap :: heap where
  "stalled_heap = (fst (snd subscribed))\<lparr>cb_chans :=
     [0 \<mapsto> \<lparr>buf = replicate 16 \<lparr>message = push ''tick'', cb_err = None\<rparr>, cap = 16,
            closed = False\<rparr>]\<rparr>"

text \<open>The status line of a response, empty when the request itself failed.\<close>

definition status_of :: "http_result \<Rightarrow> string" where
  "status_of r = (case r of Inl e \<Rightarrow> [] | Inr resp \<Rightarrow> Status resp)"

text \<open>A response whose status is neither 200 nor 503: the one \<^verbatim>\<open>Negotiate\<close> retries after.\<close>

definition retried :: "http_result \<Rightarrow> bool" where
  "retried r = (case r of Inl e \<Rightarrow> False
                | Inr resp \<Rightarrow> StatusCode resp \<noteq> 200 \<and> StatusCode resp \<noteq> 503)"

text \<open>
  A server for the scenarios of the spec: it answers the first \<open>k\<close> requests with status
  500 and the later ones with status 200 and a body that decodes to the endpoint
  \<^verbatim>\<open>/signalr2\<close>, the token \<^verbatim>\<open>tok\<close> and the id \<^verbatim>\<open>cid\<close>.
\<close>

definition flaky_server :: "nat \<Rightarrow> nat \<Rightarrow> URL \<Rightarrow> http_result" where
  "flaky_server k i u =
     (if i < k then Inr \<lparr>StatusCode = 500, Status = ''500 Internal Server Error'', Body = Inr []\<rparr>
      else Inr \<lparr>StatusCode = 200, Status = ''200 OK'', Body = Inr ''negotiated''\<rparr>)"

definition decode_negotiated :: "string \<Rightarrow> error + negotiated" where
  "decode_negotiated body =
     (if body = ''negotiated''
      then Inr \<lparr>neg_URL = ''/signalr2'', neg_ConnectionToken = ''tok'', neg_ConnectionID = ''cid''\<rparr>
      else Inl (External ''unexpected end of JSON input''))"

definition example_client :: Client where
  "example_client = New ''example.com'' ''1.5'' ''/signalr'' ''hub''"

text \<open>
  The start step of the scenarios: the server answers started; the frame read has the
  payload \<^verbatim>\<open>init\<close>, whose \<^verbatim>\<open>S\<close> is 1, or any other payload, whose \<^verbatim>\<open>S\<close> is 0.
\<close>

definition start_server :: "URL \<Rightarrow> http_result" where
  "start_server u = Inr \<lparr>StatusCode = 200, Status = ''200 OK'', Body = Inr ''ack''\<rparr>"

definition decode_response :: "string \<Rightarrow> error + string" where
  "decode_response body = (if body = ''ack'' then Inr ''started'' else Inr body)"

definition decode_frame :: "string \<Rightarrow> error + Message" where
  "decode_frame p = Inr \<lparr>msg_C = [], msg_M = [], msg_S = (if p = ''init'' then 1 else 0), msg_G = []\<rparr>"

section \<open>Properties of the invocation registry\<close>

subsection \<open>Identifiers\<close>

lemma create_E:
  obtains ivc h1 i1 where
    "invocations_create c m (h, i) = (ivc, h1, i1)"
    "ivc = \<lparr>inv_ctx = Some c, inv_id = i_id i, inv_method = m, inv_ch = Some (next_chan h),
            inv_err = None\<rparr>"
    "h1 = h\<lparr>inv_chans := (inv_chans h)(next_chan h \<mapsto> make_chan 1), next_chan := Suc (next_chan h)\<rparr>"
    "i1 = i\<lparr>i_id := i_id i + 1, i_data := AList.update (i_id i) ivc (i_data i)\<rparr>"
  by (simp add: Let_def)
















subsection \<open>Resolution of a pending invocation\<close>

lemma go_select_two:
  "go_select pick [a, b] = Some (if even pick then a else b)"
proof (cases "even pick")
  case True
  then have "pick mod Suc (Suc 0) = 0" by presburger
  then show ?thesis using True by (simp add: go_select_def)
next
  case False
  then have "pick mod Suc (Suc 0) = Suc 0" by presburger
  then show ?thesis using False by (simp add: go_select_def)
qed

lemma pendingE:
  assumes "pending h ivc"
  obtains ctx a q where "inv_ctx ivc = Some ctx" "inv_err ivc = None" "inv_ch ivc = Some a"
    "a < next_chan h" "inv_chans h a = Some q" "\<not> closed q" "buf q = []" "cap q = 1"
  using assms by (auto simp: pending_def split: option.splits)

lemma process_unmatched:
  "map_of (i_data i) (frame_InvocationID msg) = None \<Longrightarrow>
   invocations_process pick msg (h, i) = Return (h, i)"
  by simp

lemma process_matched:
  assumes m: "map_of (i_data i) (frame_InvocationID msg) = Some ivc"
    and ctx: "inv_ctx ivc = Some ctx" and a: "inv_ch ivc = Some a"
    and q: "inv_chans h a = Some q" "\<not> closed q" "buf q = []" "cap q = 1"
  shows "invocations_process pick msg (h, i) =
     Return (h\<lparr>inv_chans := (inv_chans h)(a \<mapsto>
                 \<lparr>buf = (if ctx_Done (scopes h) ctx \<and> even pick then [] else [result_of msg ivc]),
                  cap = 1, closed = True\<rparr>)\<rparr>,
             i\<lparr>i_data := AList.delete (frame_InvocationID msg) (i_data i)\<rparr>)"
proof -
  have sel: "can_send (inv_chan_of h (inv_ch ivc))"
    using a q by (simp add: can_send_def inv_chan_of_def)
  have qeq: "q = \<lparr>buf = [], cap = 1, closed = False\<rparr>" using q by simp
  show ?thesis
  proof (cases "ctx_Done (scopes h) ctx")
    case True
    then show ?thesis using m ctx a q(1) sel
      by (simp add: Let_def go_select_two go_bind_def inv_send_def inv_close_def send_def close_def
          result_of_def qeq)
  next
    case False
    then show ?thesis using m ctx a q(1) sel
      by (simp add: Let_def go_select_def go_bind_def inv_send_def inv_close_def send_def close_def
          result_of_def qeq)
  qed
qed

text \<open>
  C1 (as amended). A frame whose correlation id matches no entry leaves the registry and
  the store unchanged. A frame whose id matches a pending invocation makes \<^verbatim>\<open>process\<close>
  return with the entry removed and its channel closed; the channel then holds the result if
  the caller's scope is not done, and either the result or nothing if the scope is done
  (the \<^verbatim>\<open>select\<close> picks among the two cases that can proceed). The invocation is resolved
  once: every later frame with that id changes nothing.
\<close>

theorem process_resolves_once:
  "(map_of (i_data i) (frame_InvocationID msg) = None \<longrightarrow>
      invocations_process pick msg (h, i) = Return (h, i))
   \<and> (map_of (i_data i) (frame_InvocationID msg) = Some ivc \<and> pending h ivc \<longrightarrow>
      (\<exists>a ctx q h' i'. inv_ch ivc = Some a \<and> inv_ctx ivc = Some ctx
         \<and> invocations_process pick msg (h, i) = Return (h', i')
         \<and> i' = i\<lparr>i_data := AList.delete (frame_InvocationID msg) (i_data i)\<rparr>
         \<and> map_of (i_data i') (frame_InvocationID msg) = None
         \<and> h' = h\<lparr>inv_chans := (inv_chans h)(a \<mapsto> q)\<rparr>
         \<and> closed q \<and> cap q = 1
         \<and> (buf q = [result_of msg ivc] \<or> buf q = [] \<and> ctx_Done (scopes h) ctx)
         \<and> (\<forall>pick' msg'. frame_InvocationID msg' = frame_InvocationID msg \<longrightarrow>
               invocations_process pick' msg' (h', i') = Return (h', i'))))"
proof (intro conjI impI)
  assume "map_of (i_data i) (frame_InvocationID msg) = None"
  then show "invocations_process pick msg (h, i) = Return (h, i)"
    by (rule process_unmatched)
next
  assume asm: "map_of (i_data i) (frame_InvocationID msg) = Some ivc \<and> pending h ivc"
  then have m: "map_of (i_data i) (frame_InvocationID msg) = Some ivc" and p: "pending h ivc"
    by simp_all
  from p obtain ctx a q0 where ctx: "inv_ctx ivc = Some ctx" and a: "inv_ch ivc = Some a"
    and q0: "inv_chans h a = Some q0" "\<not> closed q0" "buf q0 = []" "cap q0 = 1"
    by (rule pendingE)
  let ?q = "\<lparr>buf = (if ctx_Done (scopes h) ctx \<and> even pick then [] else [result_of msg ivc]),
             cap = 1, closed = True\<rparr>"
  let ?h' = "h\<lparr>inv_chans := (inv_chans h)(a \<mapsto> ?q)\<rparr>"
  let ?i' = "i\<lparr>i_data := AList.delete (frame_InvocationID msg) (i_data i)\<rparr>"
  have step: "invocations_process pick msg (h, i) = Return (?h', ?i')"
    using m ctx a q0 by (rule process_matched)
  have gone: "map_of (i_data ?i') (frame_InvocationID msg) = None"
    by (simp add: delete_conv')
  have again: "\<forall>pick' msg'. frame_InvocationID msg' = frame_InvocationID msg \<longrightarrow>
               invocations_process pick' msg' (?h', ?i') = Return (?h', ?i')"
    using gone by (simp del: invocations_process.simps add: process_unmatched)
  have shape: "closed ?q \<and> cap ?q = 1
      \<and> (buf ?q = [result_of msg ivc] \<or> buf ?q = [] \<and> ctx_Done (scopes h) ctx)"
    by simp
  show "\<exists>a ctx q h' i'. inv_ch ivc = Some a \<and> inv_ctx ivc = Some ctx
         \<and> invocations_process pick msg (h, i) = Return (h', i')
         \<and> i' = i\<lparr>i_data := AList.delete (frame_InvocationID msg) (i_data i)\<rparr>
         \<and> map_of (i_data i') (frame_InvocationID msg) = None
         \<and> h' = h\<lparr>inv_chans := (inv_chans h)(a \<mapsto> q)\<rparr>
         \<and> closed q \<and> cap q = 1
         \<and> (buf q = [result_of msg ivc] \<or> buf q = [] \<and> ctx_Done (scopes h) ctx)
         \<and> (\<forall>pick' msg'. frame_InvocationID msg' = frame_InvocationID msg \<longrightarrow>
               invocations_process pick' msg' (h', i') = Return (h', i'))"
    using a ctx step gone again shape by blast
qed

subsection \<open>The invariant is kept\<close>

lemma wf_new: "wf_invocations h newInvocations"
  by (simp add: wf_invocations_def newInvocations_def)

lemma pending_heap_cong:
  "pending h ivc \<Longrightarrow> next_chan h \<le> next_chan h' \<Longrightarrow>
   (\<And>a. inv_ch ivc = Some a \<Longrightarrow> inv_chans h' a = inv_chans h a) \<Longrightarrow> pending h' ivc"
  by (auto simp: pending_def split: option.splits)

lemma set_update_subset: "set (AList.update k v al) \<subseteq> insert (k, v) (set al)"
  by (induction al) auto

lemma distinct_map_update:
  "distinct (map f al) \<Longrightarrow> f (k, v) \<notin> f ` set al \<Longrightarrow> distinct (map f (AList.update k v al))"
proof (induction al)
  case Nil
  then show ?case by simp
next
  case (Cons x al)
  obtain k' v' where x: "x = (k', v')" by (cases x)
  show ?case
  proof (cases "k' = k")
    case True
    then show ?thesis using Cons.prems x by auto
  next
    case False
    have "f x \<notin> f ` set (AList.update k v al)"
      using Cons.prems set_update_subset[of k v al] by auto
    then show ?thesis using False x Cons by auto
  qed
qed

lemma wf_create:
  assumes "wf_invocations h i"
  shows "wf_invocations (fst (snd (invocations_create ctx m (h, i))))
           (snd (snd (invocations_create ctx m (h, i))))"
proof -
  obtain ivc h1 i1 where r: "invocations_create ctx m (h, i) = (ivc, h1, i1)"
    and ivc_eq: "ivc = \<lparr>inv_ctx = Some ctx, inv_id = i_id i, inv_method = m, inv_ch = Some (next_chan h),
            inv_err = None\<rparr>"
    and h1_eq: "h1 = h\<lparr>inv_chans := (inv_chans h)(next_chan h \<mapsto> make_chan 1), next_chan := Suc (next_chan h)\<rparr>"
    and i1_eq: "i1 = i\<lparr>i_id := i_id i + 1, i_data := AList.update (i_id i) ivc (i_data i)\<rparr>"
    by (rule create_E)
  have d: "distinct (map fst (i_data i))" and dc: "distinct (map (\<lambda>e. inv_ch (snd e)) (i_data i))"
    and all: "\<And>e. e \<in> set (i_data i) \<Longrightarrow> inv_id (snd e) = fst e \<and> pending h (snd e)"
    using assms by (auto simp: wf_invocations_def list_all_iff)
  have fresh: "\<And>e. e \<in> set (i_data i) \<Longrightarrow> inv_ch (snd e) \<noteq> Some (next_chan h)"
    using all by (fastforce elim: pendingE)
  have p_new: "pending h1 ivc"
    by (simp add: pending_def ivc_eq h1_eq make_chan_def)
  have p_old: "\<And>e. e \<in> set (i_data i) \<Longrightarrow> pending h1 (snd e)"
  proof -
    fix e assume e: "e \<in> set (i_data i)"
    show "pending h1 (snd e)"
    proof (rule pending_heap_cong)
      show "pending h (snd e)" using all e by simp
      show "next_chan h \<le> next_chan h1" by (simp add: h1_eq)
      fix a assume "inv_ch (snd e) = Some a"
      then have "a \<noteq> next_chan h" using fresh[OF e] by auto
      then show "inv_chans h1 a = inv_chans h a" by (simp add: h1_eq)
    qed
  qed
  have 1: "distinct (map fst (i_data i1))"
    using d by (simp add: i1_eq distinct_update)
  have nf: "(\<lambda>e. inv_ch (snd e)) (i_id i, ivc) \<notin> (\<lambda>e. inv_ch (snd e)) ` set (i_data i)"
  proof
    assume "(\<lambda>e. inv_ch (snd e)) (i_id i, ivc) \<in> (\<lambda>e. inv_ch (snd e)) ` set (i_data i)"
    then obtain e where "e \<in> set (i_data i)" "inv_ch (snd e) = inv_ch ivc" by auto
    then show False using fresh[of e] by (simp add: ivc_eq)
  qed
  have 2: "distinct (map (\<lambda>e. inv_ch (snd e)) (i_data i1))"
    using distinct_map_update[OF dc nf] by (simp add: i1_eq)
  have 3: "list_all (\<lambda>e. inv_id (snd e) = fst e \<and> pending h1 (snd e)) (i_data i1)"
    unfolding list_all_iff
  proof
    fix e assume "e \<in> set (i_data i1)"
    then have "e = (i_id i, ivc) \<or> e \<in> set (i_data i)"
      using set_update_subset[of "i_id i" ivc "i_data i"] by (auto simp: i1_eq)
    then show "inv_id (snd e) = fst e \<and> pending h1 (snd e)"
    proof
      assume "e = (i_id i, ivc)"
      then show ?thesis using p_new by (simp add: ivc_eq)
    next
      assume "e \<in> set (i_data i)"
      then show ?thesis using p_old[of e] all[of e] by simp
    qed
  qed
  show ?thesis unfolding r wf_invocations_def using 1 2 3 by simp
qed

lemma map_of_in_set: "map_of al k = Some v \<Longrightarrow> (k, v) \<in> set al"
  by (rule map_of_SomeD)

lemma wf_drop:
  assumes wf: "wf_invocations h i" and m: "map_of (i_data i) k = Some ivc"
    and a: "inv_ch ivc = Some a"
  shows "wf_invocations (h\<lparr>inv_chans := (inv_chans h)(a \<mapsto> q)\<rparr>)
           (i\<lparr>i_data := AList.delete k (i_data i)\<rparr>)"
proof -
  let ?h' = "h\<lparr>inv_chans := (inv_chans h)(a \<mapsto> q)\<rparr>"
  have d: "distinct (map fst (i_data i))" and dc: "distinct (map (\<lambda>e. inv_ch (snd e)) (i_data i))"
    and all: "\<And>e. e \<in> set (i_data i) \<Longrightarrow> inv_id (snd e) = fst e \<and> pending h (snd e)"
    using wf by (auto simp: wf_invocations_def list_all_iff)
  have mem: "(k, ivc) \<in> set (i_data i)" using m by (rule map_of_SomeD)
  have rest: "\<And>e. e \<in> set (AList.delete k (i_data i)) \<Longrightarrow> e \<in> set (i_data i) \<and> fst e \<noteq> k"
    by (auto simp: AList.delete_eq)
  have other: "\<And>e. e \<in> set (i_data i) \<Longrightarrow> fst e \<noteq> k \<Longrightarrow> inv_ch (snd e) \<noteq> Some a"
  proof
    fix e assume e: "e \<in> set (i_data i)" "fst e \<noteq> k" "inv_ch (snd e) = Some a"
    then have "(\<lambda>e. inv_ch (snd e)) e = (\<lambda>e. inv_ch (snd e)) (k, ivc)" using a by simp
    then have "e = (k, ivc)"
      using dc e(1) mem by (meson distinct_map inj_onD)
    then show False using e(2) by simp
  qed
  have 1: "distinct (map fst (AList.delete k (i_data i)))"
    using d by (rule distinct_delete)
  have 2: "distinct (map (\<lambda>e. inv_ch (snd e)) (AList.delete k (i_data i)))"
    using dc by (simp add: AList.delete_eq distinct_map_filter)
  have 3: "list_all (\<lambda>e. inv_id (snd e) = fst e \<and> pending ?h' (snd e)) (AList.delete k (i_data i))"
    unfolding list_all_iff
  proof
    fix e assume "e \<in> set (AList.delete k (i_data i))"
    then have e: "e \<in> set (i_data i)" "fst e \<noteq> k" using rest by simp_all
    have "pending ?h' (snd e)"
    proof (rule pending_heap_cong)
      show "pending h (snd e)" using all e by simp
      show "next_chan h \<le> next_chan ?h'" by simp
      fix b assume "inv_ch (snd e) = Some b"
      then have "b \<noteq> a" using other[OF e] by auto
      then show "inv_chans ?h' b = inv_chans h b" by simp
    qed
    then show "inv_id (snd e) = fst e \<and> pending ?h' (snd e)" using all e by simp
  qed
  show ?thesis unfolding wf_invocations_def using 1 2 3 by simp
qed

lemma wf_process:
  assumes wf: "wf_invocations h i"
  shows "\<exists>h' i'. invocations_process pick msg (h, i) = Return (h', i') \<and> wf_invocations h' i'"
proof (cases "map_of (i_data i) (frame_InvocationID msg)")
  case None
  then show ?thesis using wf by (simp add: process_unmatched del: invocations_process.simps) 
next
  case (Some ivc)
  then have "(frame_InvocationID msg, ivc) \<in> set (i_data i)" by (rule map_of_SomeD)
  then have "pending h ivc" using wf by (auto simp: wf_invocations_def list_all_iff)
  then obtain ctx a q0 where ctx: "inv_ctx ivc = Some ctx" and a: "inv_ch ivc = Some a"
    and q0: "inv_chans h a = Some q0" "\<not> closed q0" "buf q0 = []" "cap q0 = 1"
    by (rule pendingE)
  show ?thesis
    using process_matched[OF Some ctx a q0, of pick] wf_drop[OF wf Some a] by blast
qed

lemma remove_matched:
  assumes m: "map_of (i_data i) k = Some ivc" and a: "inv_ch ivc = Some a"
    and q: "inv_chans h a = Some q" "\<not> closed q"
  shows "invocations_remove k (h, i) =
     Return (h\<lparr>inv_chans := (inv_chans h)(a \<mapsto> q\<lparr>closed := True\<rparr>)\<rparr>,
             i\<lparr>i_data := AList.delete k (i_data i)\<rparr>)"
  using m a q by (simp add: go_bind_def inv_close_def close_def)

lemma wf_remove:
  assumes wf: "wf_invocations h i"
  shows "\<exists>h' i'. invocations_remove k (h, i) = Return (h', i') \<and> wf_invocations h' i'"
proof (cases "map_of (i_data i) k")
  case None
  then show ?thesis using wf by simp
next
  case (Some ivc)
  then have "(k, ivc) \<in> set (i_data i)" by (rule map_of_SomeD)
  then have "pending h ivc" using wf by (auto simp: wf_invocations_def list_all_iff)
  then obtain ctx a q0 where a: "inv_ch ivc = Some a"
    and q0: "inv_chans h a = Some q0" "\<not> closed q0"
    by (rule pendingE)
  show ?thesis
    using remove_matched[OF Some a q0] wf_drop[OF wf Some a] by blast
qed


lemma close_all_pending:
  "distinct (map inv_ch ivcs) \<Longrightarrow> (\<And>ivc. ivc \<in> set ivcs \<Longrightarrow> pending h ivc) \<Longrightarrow>
   close_all ivcs h =
     Return (h\<lparr>inv_chans := (\<lambda>a. if Some a \<in> inv_ch ` set ivcs then Some closed_slot
                                  else inv_chans h a)\<rparr>)"
proof (induction ivcs arbitrary: h)
  case Nil
  then show ?case by simp
next
  case (Cons ivc ivcs)
  from Cons.prems(2)[of ivc] obtain a q where a: "inv_ch ivc = Some a"
    and q: "inv_chans h a = Some q" "\<not> closed q" "buf q = []" "cap q = 1"
    by (auto elim: pendingE)
  let ?h1 = "h\<lparr>inv_chans := (inv_chans h)(a \<mapsto> closed_slot)\<rparr>"
  have q_eq: "q\<lparr>closed := True\<rparr> = closed_slot" using q by (simp add: closed_slot_def)
  have c1: "inv_close (inv_ch ivc) h = Return ?h1"
    using a q q_eq by (simp add: inv_close_def close_def go_bind_def)
  have notin: "Some a \<notin> inv_ch ` set ivcs" using Cons.prems(1) a by auto
  have p1: "\<And>x. x \<in> set ivcs \<Longrightarrow> pending ?h1 x"
  proof -
    fix x assume x: "x \<in> set ivcs"
    show "pending ?h1 x"
    proof (rule pending_heap_cong)
      show "pending h x" using Cons.prems(2) x by simp
      show "next_chan h \<le> next_chan ?h1" by simp
      fix b assume "inv_ch x = Some b"
      then have "b \<noteq> a" using notin x by force
      then show "inv_chans ?h1 b = inv_chans h b" by simp
    qed
  qed
  have "close_all ivcs ?h1 =
     Return (?h1\<lparr>inv_chans := (\<lambda>b. if Some b \<in> inv_ch ` set ivcs then Some closed_slot
                                  else inv_chans ?h1 b)\<rparr>)"
    using Cons.prems(1) p1 by (intro Cons.IH) simp_all
  moreover have "(\<lambda>b. if Some b \<in> inv_ch ` set ivcs then Some closed_slot else inv_chans ?h1 b)
      = (\<lambda>b. if Some b \<in> inv_ch ` set (ivc # ivcs) then Some closed_slot else inv_chans h b)"
    using a by (auto simp: fun_eq_iff)
  ultimately show ?case using c1 by (simp add: go_bind_def)
qed

lemma removeAll_wf:
  assumes wf: "wf_invocations h i"
  shows "invocations_removeAll (h, i) =
     Return (h\<lparr>inv_chans := (\<lambda>a. if Some a \<in> (\<lambda>e. inv_ch (snd e)) ` set (i_data i)
                                   then Some closed_slot else inv_chans h a)\<rparr>,
             i\<lparr>i_data := []\<rparr>)"
proof -
  have "distinct (map inv_ch (map snd (i_data i)))"
    using wf by (simp add: wf_invocations_def comp_def)
  moreover have "\<And>ivc. ivc \<in> set (map snd (i_data i)) \<Longrightarrow> pending h ivc"
    using wf by (auto simp: wf_invocations_def list_all_iff)
  ultimately have "close_all (map snd (i_data i)) h =
     Return (h\<lparr>inv_chans := (\<lambda>a. if Some a \<in> inv_ch ` set (map snd (i_data i)) then Some closed_slot
                                  else inv_chans h a)\<rparr>)"
    by (rule close_all_pending)
  then show ?thesis by (simp add: go_bind_def image_image)
qed

text \<open>A registry with one pending invocation, id 1: a frame for id 5 and a frame for id 1.\<close>

theorem process_resolves_once_witness:
  "map_of (i_data (snd (snd (one_pending [] empty_heap)))) (frame_InvocationID (reply 5)) = None
   \<and> invocations_process 0 (reply 5) (snd (one_pending [] empty_heap)) = Return (snd (one_pending [] empty_heap))
   \<and> map_of (i_data (snd (snd (one_pending [] empty_heap)))) (frame_InvocationID (reply 1))
       = Some (fst (one_pending [] empty_heap))
   \<and> pending (fst (snd (one_pending [] empty_heap))) (fst (one_pending [] empty_heap))
   \<and> (\<exists>q. invocations_process 0 (reply 1) (snd (one_pending [] empty_heap))
          = Return ((fst (snd (one_pending [] empty_heap)))\<lparr>inv_chans :=
                      (inv_chans (fst (snd (one_pending [] empty_heap))))(0 \<mapsto> q)\<rparr>,
                    (snd (snd (one_pending [] empty_heap)))\<lparr>i_data := []\<rparr>)
        \<and> closed q \<and> buf q = [\<lparr>result = ''42'', err = None\<rparr>])"
  using process_resolves_once[where msg = "reply 5" and pick = 0
          and h = "fst (snd (one_pending [] empty_heap))" and i = "snd (snd (one_pending [] empty_heap))"]
        process_resolves_once[where msg = "reply 1" and pick = 0 and ivc = "fst (one_pending [] empty_heap)"
          and h = "fst (snd (one_pending [] empty_heap))" and i = "snd (snd (one_pending [] empty_heap))"]
  by (auto simp: one_pending_def reply_def Let_def newInvocations_def empty_heap_def pending_def
        make_chan_def result_of_def ctx_Done_def simp del: invocations_process.simps)

text \<open>
  The caller's scope is done, the runtime picks the send: the result is delivered, not
  dropped.
\<close>

theorem process_delivers_when_done:
  "ctx_Done (scopes (fst (snd (one_pending [0] cancelled_heap)))) [0]
   \<and> invocations_process 1 (reply 1) (snd (one_pending [0] cancelled_heap))
     = Return ((fst (snd (one_pending [0] cancelled_heap)))\<lparr>inv_chans :=
                  [0 \<mapsto> \<lparr>buf = [\<lparr>result = ''42'', err = None\<rparr>], cap = 1, closed = True\<rparr>]\<rparr>,
               (snd (snd (one_pending [0] cancelled_heap)))\<lparr>i_data := []\<rparr>)"
  by (simp add: one_pending_def cancelled_heap_def reply_def Let_def newInvocations_def empty_heap_def
        make_chan_def ctx_Done_def go_select_def go_bind_def can_send_def inv_chan_of_def
        inv_send_def inv_close_def send_def close_def)

subsection \<open>Invoke\<close>

lemma Unmarshal_failed: "Unmarshal pick (failed_Invocation e) h = Return (Fails e, h)"
  by (simp add: failed_Invocation_def)

lemma remove_after_create:
  "invocations_remove (i_id i) (snd (invocations_create ctx mth (h, i))) =
     Return (h\<lparr>inv_chans := (inv_chans h)(next_chan h \<mapsto> \<lparr>buf = [], cap = 1, closed = True\<rparr>),
               next_chan := Suc (next_chan h)\<rparr>,
             i\<lparr>i_id := i_id i + 1, i_data := AList.delete (i_id i) (i_data i)\<rparr>)"
  by (simp add: Let_def update_conv' inv_close_def close_def go_bind_def make_chan_def delete_update_same)

text \<open>
  C10. When the serialization of the arguments fails, \<^verbatim>\<open>Invoke\<close> leaves the store, the
  transport and the registry as they were, and \<^verbatim>\<open>Exec\<close> and \<^verbatim>\<open>Unmarshal\<close> of the
  handle it returns give the serialization error (wrapped by \<^verbatim>\<open>fmt.Errorf\<close>). When the
  write fails after the entry was created, the entry is no longer registered, its channel is
  closed, the other entries and channels are untouched, and the handle carries the write
  error.
\<close>

theorem Invoke_failures:
  "(marshalArgs json_Marshal args = Inl e \<longrightarrow>
      Invoke json_Marshal WriteMessage hub ctx mth args (h, conn, i)
        = Return (failed_Invocation (MarshalArgs e), h, conn, i)
      \<and> Exec (failed_Invocation (MarshalArgs e)) = Some (MarshalArgs e)
      \<and> Unmarshal pick (failed_Invocation (MarshalArgs e)) h = Return (Fails (MarshalArgs e), h))
   \<and> (marshalArgs json_Marshal args = Inr rawArgs
        \<and> WriteMessage \<lparr>Hub = hub, Method = mth, Args = rawArgs, InvocationID = i_id i\<rparr> = Some e'
      \<longrightarrow>
      (\<exists>h' i'. Invoke json_Marshal WriteMessage hub ctx mth args (h, conn, i)
          = Return (failed_Invocation e', h',
              conn\<lparr>writes := writes conn @
                 [\<lparr>Hub = hub, Method = mth, Args = rawArgs, InvocationID = i_id i\<rparr>]\<rparr>, i')
        \<and> map_of (i_data i') (i_id i) = None
        \<and> (\<forall>k. k \<noteq> i_id i \<longrightarrow> map_of (i_data i') k = map_of (i_data i) k)
        \<and> inv_chans h' (next_chan h) = Some \<lparr>buf = [], cap = 1, closed = True\<rparr>
        \<and> (\<forall>a. a \<noteq> next_chan h \<longrightarrow> inv_chans h' a = inv_chans h a)
        \<and> Exec (failed_Invocation e') = Some e'
        \<and> Unmarshal pick (failed_Invocation e') h' = Return (Fails e', h')))"
proof (intro conjI impI)
  assume "marshalArgs json_Marshal args = Inl e"
  then show "Invoke json_Marshal WriteMessage hub ctx mth args (h, conn, i)
        = Return (failed_Invocation (MarshalArgs e), h, conn, i)"
    by simp
next
  show "Exec (failed_Invocation (MarshalArgs e)) = Some (MarshalArgs e)"
    by (simp add: Exec_def failed_Invocation_def)
next
  show "Unmarshal pick (failed_Invocation (MarshalArgs e)) h = Return (Fails (MarshalArgs e), h)"
    by (rule Unmarshal_failed)
next
  assume a: "marshalArgs json_Marshal args = Inr rawArgs
        \<and> WriteMessage \<lparr>Hub = hub, Method = mth, Args = rawArgs, InvocationID = i_id i\<rparr> = Some e'"
  let ?h' = "h\<lparr>inv_chans := (inv_chans h)(next_chan h \<mapsto> \<lparr>buf = [], cap = 1, closed = True\<rparr>),
               next_chan := Suc (next_chan h)\<rparr>"
  let ?i' = "i\<lparr>i_id := i_id i + 1, i_data := AList.delete (i_id i) (i_data i)\<rparr>"
  have "Invoke json_Marshal WriteMessage hub ctx mth args (h, conn, i)
          = Return (failed_Invocation e', ?h',
              conn\<lparr>writes := writes conn @
                 [\<lparr>Hub = hub, Method = mth, Args = rawArgs, InvocationID = i_id i\<rparr>]\<rparr>, ?i')"
    using a remove_after_create[of i ctx mth h]
    by (simp add: Let_def go_bind_def del: invocations_remove.simps)
  moreover have "map_of (i_data ?i') (i_id i) = None" by (simp add: delete_conv')
  moreover have "\<forall>k. k \<noteq> i_id i \<longrightarrow> map_of (i_data ?i') k = map_of (i_data i) k"
    by (simp add: delete_conv')
  moreover have "inv_chans ?h' (next_chan h) = Some \<lparr>buf = [], cap = 1, closed = True\<rparr>" by simp
  moreover have "\<forall>a. a \<noteq> next_chan h \<longrightarrow> inv_chans ?h' a = inv_chans h a" by simp
  moreover have "Exec (failed_Invocation e') = Some e'" by (simp add: Exec_def failed_Invocation_def)
  moreover have "Unmarshal pick (failed_Invocation e') ?h' = Return (Fails e', ?h')"
    by (rule Unmarshal_failed)
  ultimately show "\<exists>h' i'. Invoke json_Marshal WriteMessage hub ctx mth args (h, conn, i)
          = Return (failed_Invocation e', h',
              conn\<lparr>writes := writes conn @
                 [\<lparr>Hub = hub, Method = mth, Args = rawArgs, InvocationID = i_id i\<rparr>]\<rparr>, i')
        \<and> map_of (i_data i') (i_id i) = None
        \<and> (\<forall>k. k \<noteq> i_id i \<longrightarrow> map_of (i_data i') k = map_of (i_data i) k)
        \<and> inv_chans h' (next_chan h) = Some \<lparr>buf = [], cap = 1, closed = True\<rparr>
        \<and> (\<forall>a. a \<noteq> next_chan h \<longrightarrow> inv_chans h' a = inv_chans h a)
        \<and> Exec (failed_Invocation e') = Some e'
        \<and> Unmarshal pick (failed_Invocation e') h' = Return (Fails e', h')"
    by blast
qed

text \<open>A value that cannot be serialized; a transport that refuses the write.\<close>

theorem Invoke_failures_witness:
  "marshalArgs (\<lambda>v. if v then Inr ''1'' else Inl (External ''unsupported type'')) [True, False]
     = Inl (External ''unsupported type'')
   \<and> Invoke (\<lambda>v. if v then Inr ''1'' else Inl (External ''unsupported type'')) (\<lambda>m. None)
        ''hub'' [] ''Foo'' [True, False] (empty_heap, \<lparr>writes = []\<rparr>, newInvocations)
     = Return (failed_Invocation (MarshalArgs (External ''unsupported type'')),
               empty_heap, \<lparr>writes = []\<rparr>, newInvocations)
   \<and> marshalArgs (\<lambda>v. if v then Inr ''1'' else Inl (External ''unsupported type'')) [True]
     = Inr [''1'']
   \<and> (\<exists>h' i'. Invoke (\<lambda>v. if v then Inr ''1'' else Inl (External ''unsupported type''))
          (\<lambda>m. Some (External ''broken pipe''))
          ''hub'' [] ''Foo'' [True] (empty_heap, \<lparr>writes = []\<rparr>, newInvocations)
        = Return (failed_Invocation (External ''broken pipe''), h',
                  \<lparr>writes = [\<lparr>Hub = ''hub'', Method = ''Foo'', Args = [''1''], InvocationID = 1\<rparr>]\<rparr>, i')
        \<and> map_of (i_data i') 1 = None
        \<and> inv_chans h' 0 = Some \<lparr>buf = [], cap = 1, closed = True\<rparr>)"
proof -
  let ?m = "\<lambda>v. if v then Inr ''1'' else Inl (External ''unsupported type'')"
  have h1: "marshalArgs ?m [True, False] = Inl (External ''unsupported type'')"
    by simp
  have h2: "marshalArgs ?m [True] = Inr [''1'']
      \<and> (\<lambda>m. Some (External ''broken pipe''))
           \<lparr>Hub = ''hub'', Method = ''Foo'', Args = [''1''], InvocationID = i_id newInvocations\<rparr>
         = Some (External ''broken pipe'')"
    by simp
  have id1: "i_id newInvocations = 1" and ch0: "next_chan empty_heap = 0"
    by (simp_all add: newInvocations_def empty_heap_def)
  note c1 = Invoke_failures[where json_Marshal = ?m and args = "[True, False]"
      and WriteMessage = "\<lambda>m. None" and hub = "''hub''" and ctx = "[]" and mth = "''Foo''"
      and h = empty_heap and conn = "\<lparr>writes = []\<rparr>" and i = newInvocations,
      THEN conjunct1, rule_format, OF h1]
  note c2 = Invoke_failures[where json_Marshal = ?m and args = "[True]"
      and WriteMessage = "\<lambda>m. Some (External ''broken pipe'')" and hub = "''hub''" and ctx = "[]"
      and mth = "''Foo''" and h = empty_heap and conn = "\<lparr>writes = []\<rparr>" and i = newInvocations,
      THEN conjunct2, rule_format, OF h2]
  have ex: "\<exists>h' i'. Invoke ?m (\<lambda>m. Some (External ''broken pipe'')) ''hub'' [] ''Foo'' [True]
        (empty_heap, \<lparr>writes = []\<rparr>, newInvocations)
      = Return (failed_Invocation (External ''broken pipe''), h',
                \<lparr>writes = [\<lparr>Hub = ''hub'', Method = ''Foo'', Args = [''1''], InvocationID = 1\<rparr>]\<rparr>, i')
    \<and> map_of (i_data i') 1 = None
    \<and> inv_chans h' 0 = Some \<lparr>buf = [], cap = 1, closed = True\<rparr>"
    using c2[unfolded id1 ch0, of 0] by (auto simp del: Invoke.simps Unmarshal.simps)
  have m2: "marshalArgs ?m [True] = Inr [''1'']" using h2 by (rule conjunct1)
  show ?thesis
    by (intro conjI) (rule h1, rule c1[THEN conjunct1], rule m2, rule ex)
qed

section \<open>Properties of cancellation scopes\<close>



lemma ctx_Done_cancel: "c \<noteq> [] \<Longrightarrow> ctx_Done (cancel_ctx c S) c"
  by (cases c) (auto simp: ctx_Done_def)

subsection \<open>Shutdown\<close>

text \<open>
  C3, the code at an input where it departs from the claim. One invocation is pending, made
  with the background context, which is never done. The shutdown branch of the router
  returns and leaves the registry empty; the invocation's channel is closed without a value.
  \<^verbatim>\<open>Unmarshal\<close> on the handle then does not block, but what it returns is
  \<^verbatim>\<open>json.Unmarshal(nil, dest)\<close>, the decoder's verdict on an empty payload, not a
  cancellation error.
\<close>

theorem shutdown_read_is_not_cancellation:
  "\<not> ctx_Done (scopes (fst (snd (one_pending [] empty_heap)))) []
   \<and> shutdown sched (fst (snd (one_pending [] empty_heap)), snd (snd (one_pending [] empty_heap)),
        newCallbacks d)
     = Return ((fst (snd (one_pending [] empty_heap)))\<lparr>inv_chans := [0 \<mapsto> closed_slot]\<rparr>,
               newInvocations\<lparr>i_id := 2\<rparr>, newCallbacks d)
   \<and> Unmarshal pick (fst (one_pending [] empty_heap))
        ((fst (snd (one_pending [] empty_heap)))\<lparr>inv_chans := [0 \<mapsto> closed_slot]\<rparr>)
     = Return (Decodes [],
        (fst (snd (one_pending [] empty_heap)))\<lparr>inv_chans := [0 \<mapsto> closed_slot]\<rparr>)"
  by (simp add: one_pending_def Let_def newInvocations_def empty_heap_def newCallbacks_def
        make_chan_def closed_slot_def ctx_Done_def go_select_def go_bind_def can_recv_def
        inv_chan_of_def inv_close_def close_def recv_def zero_invocationResult_def)

text \<open>The same for every registered invocation whose scope is not done.\<close>

lemma Unmarshal_closed_slot:
  assumes "inv_err ivc = None" "inv_ctx ivc = Some ctx" "\<not> ctx_Done (scopes h) ctx"
    "inv_ch ivc = Some a" "inv_chans h a = Some closed_slot"
  shows "Unmarshal pick ivc h = Return (Decodes [], h)"
proof -
  have "ctx_Err (scopes h) ctx = None" using assms(3) by (simp add: ctx_Done_def)
  moreover have "(inv_chans h)(a \<mapsto> closed_slot) = inv_chans h" using assms(5) by (rule map_upd_triv)
  ultimately show ?thesis using assms
    by (simp add: go_select_def can_recv_def inv_chan_of_def recv_def closed_slot_def
        zero_invocationResult_def)
qed

lemma Unmarshal_after_removeAll:
  assumes wf: "wf_invocations h i" and reg: "map_of (i_data i) k = Some ivc"
    and ctx: "inv_ctx ivc = Some ctx" "\<not> ctx_Done (scopes h) ctx"
  shows "\<exists>h'. invocations_removeAll (h, i) = Return (h', i\<lparr>i_data := []\<rparr>)
           \<and> Unmarshal pick ivc h' = Return (Decodes [], h')"
proof -
  let ?h' = "h\<lparr>inv_chans := (\<lambda>a. if Some a \<in> (\<lambda>e. inv_ch (snd e)) ` set (i_data i)
                                   then Some closed_slot else inv_chans h a)\<rparr>"
  have mem: "(k, ivc) \<in> set (i_data i)" using reg by (rule map_of_SomeD)
  then have "pending h ivc" using wf by (auto simp: wf_invocations_def list_all_iff)
  then obtain a where e: "inv_err ivc = None" and a: "inv_ch ivc = Some a" by (auto elim: pendingE)
  have "Some a \<in> (\<lambda>e. inv_ch (snd e)) ` set (i_data i)" using mem a by force
  then have "inv_chans ?h' a = Some closed_slot" by simp
  moreover have "\<not> ctx_Done (scopes ?h') ctx" using ctx by simp
  ultimately have "Unmarshal pick ivc ?h' = Return (Decodes [], ?h')"
    using e ctx(1) a by (intro Unmarshal_closed_slot)
  then show ?thesis using removeAll_wf[OF wf] by blast
qed

section \<open>Properties of the callback registry\<close>

subsection \<open>Subscription\<close>

lemma callbacks_create_refused:
  "map_of (c_data c) mth = Some cb \<Longrightarrow> \<not> ctx_Done (scopes h) (cs_ctx cb) \<Longrightarrow>
   callbacks_create ctx mth (h, c) = (Inl (DuplicateCallbackError mth), h, c)"
  by simp



lemma subscribed_eq:
  "subscribed = (Inr tick_stream,
      \<lparr>scopes = Map.empty, next_scope = 1, inv_chans = Map.empty,
        cb_chans = [0 \<mapsto> make_chan 16], next_chan = 1\<rparr>,
      \<lparr>c_maxMessageProcessDuration = 5, c_data = [(''tick'', tick_stream)]\<rparr>)"
  by (simp add: subscribed_def tick_stream_def empty_heap_def newCallbacks_def Let_def)


subsection \<open>Delivery\<close>

lemma go_select_mem:
  "ready \<noteq> [] \<Longrightarrow> \<exists>w. go_select pick ready = Some w \<and> w \<in> set ready"
  by (simp add: go_select_def)

lemma process_ready_nonempty: "process_ready d fired h cb \<noteq> []"
  by (simp add: process_ready_def Let_def)

lemma process_ready_mem:
  "w \<in> set (process_ready d fired h cb) \<longleftrightarrow>
     (w = StreamDone \<and> ctx_Done (scopes h) (cs_ctx cb)) \<or>
     (w = Deliver \<and> can_send (cb_chans h (cs_ch cb))) \<or>
     (w = Deadline \<and> (ctx_Done (scopes h) (cs_ctx cb) \<or> d \<le> 0 \<or> fired
                       \<or> \<not> can_send (cb_chans h (cs_ch cb))))"
  by (auto simp: process_ready_def Let_def)

lemma open_streamE:
  assumes "open_stream h s"
  obtains q where "cs_ctx s \<noteq> []" "cs_ch s < next_chan h" "cb_chans h (cs_ch s) = Some q"
    "\<not> closed q" "cap q = 16" "length (buf q) \<le> 16"
  using assms by (auto simp: open_stream_def split: option.splits)

lemma recv_shape: "closed (snd (recv q)) = closed q \<and> cap (snd (recv q)) = cap q
    \<and> length (buf (snd (recv q))) \<le> length (buf q)"
  by (simp add: recv_def split: list.splits)

lemma env_step_open: "open_stream h s \<Longrightarrow> open_stream (env_step e h) s"
proof (cases e)
  case (EnvCancel k ca)
  assume "open_stream h s"
  then show ?thesis using EnvCancel by (simp add: open_stream_def)
next
  case (EnvRecv a)
  assume o: "open_stream h s"
  then obtain q where q: "cs_ctx s \<noteq> []" "cs_ch s < next_chan h" "cb_chans h (cs_ch s) = Some q"
    "\<not> closed q" "cap q = 16" "length (buf q) \<le> 16"
    by (rule open_streamE)
  show ?thesis
  proof (cases "a = cs_ch s")
    case True
    then show ?thesis using q EnvRecv recv_shape[of q] by (simp add: open_stream_def)
  next
    case False
    then show ?thesis using o EnvRecv by (simp add: open_stream_def split: option.splits)
  qed
qed

lemma interfere_open: "open_stream h s \<Longrightarrow> open_stream (interfere es h) s"
  by (induction es arbitrary: h) (simp_all add: env_step_open)

lemma env_step_next_chan: "next_chan (env_step e h) = next_chan h"
  by (cases e) (simp_all split: option.splits)

lemma interfere_wf: "wf_callbacks h c \<Longrightarrow> wf_callbacks (interfere es h) c"
  by (auto simp: wf_callbacks_def list_all_iff interfere_open)

text \<open>The three outcomes of one delivery.\<close>

lemma deliver_StreamDone:
  assumes "go_select (r_pick rc) (process_ready (c_maxMessageProcessDuration c) (r_expired rc)
             (interfere (r_before rc) h) cb) = Some StreamDone"
    and "cb_chans (interfere (r_before rc) h) (cs_ch cb) = Some q" "\<not> closed q"
  shows "callbacks_deliver rc m cb (h, c) =
     Return ((interfere (r_before rc) h)\<lparr>cb_chans :=
                (cb_chans (interfere (r_before rc) h))(cs_ch cb \<mapsto> q\<lparr>closed := True\<rparr>)\<rparr>,
             c\<lparr>c_data := AList.delete (Method m) (c_data c)\<rparr>)"
  using assms by (simp add: callbacks_deliver_def Let_def cb_close_def close_def go_bind_def)

lemma deliver_Deliver:
  assumes "go_select (r_pick rc) (process_ready (c_maxMessageProcessDuration c) (r_expired rc)
             (interfere (r_before rc) h) cb) = Some Deliver"
    and "cb_chans (interfere (r_before rc) h) (cs_ch cb) = Some q" "\<not> closed q"
  shows "callbacks_deliver rc m cb (h, c) =
     Return ((interfere (r_before rc) h)\<lparr>cb_chans :=
                (cb_chans (interfere (r_before rc) h))
                  (cs_ch cb \<mapsto> q\<lparr>buf := buf q @ [\<lparr>message = m, cb_err = None\<rparr>]\<rparr>)\<rparr>,
             c)"
  using assms by (simp add: callbacks_deliver_def Let_def cb_send_def send_def go_bind_def)

lemma deliver_Deadline:
  assumes "go_select (r_pick rc) (process_ready (c_maxMessageProcessDuration c) (r_expired rc)
             (interfere (r_before rc) h) cb) = Some Deadline"
    and "cb_chans (interfere (r_before rc) h) (cs_ch cb) = Some q" "\<not> closed q"
  shows "callbacks_deliver rc m cb (h, c) =
     Return ((interfere (r_before rc) h)\<lparr>
                scopes := cancel_ctx (cs_ctx cb) (scopes (interfere (r_before rc) h)),
                cb_chans := (cb_chans (interfere (r_before rc) h))(cs_ch cb \<mapsto> q\<lparr>closed := True\<rparr>)\<rparr>,
             c\<lparr>c_data := AList.delete (Method m) (c_data c)\<rparr>)"
  using assms by (simp add: callbacks_deliver_def Let_def cb_close_def close_def go_bind_def)

lemma deliver_all_step:
  "map_of (c_data c) (Method m) = Some cb \<Longrightarrow> callbacks_deliver (sched n) m cb (h, c) = Return s' \<Longrightarrow>
   deliver_all sched n (m # rest) (h, c) = deliver_all sched (Suc n) rest s'"
  by (simp add: go_bind_def)

text \<open>The outcomes of one delivery, for the three cases of the \<^verbatim>\<open>select\<close>.\<close>

lemma deliver_outcomes:
  assumes reg: "map_of (c_data c) (Method m) = Some cb"
    and h1: "h1 = interfere (r_before rc) h"
    and st: "open_stream h1 cb"
  shows "\<exists>w q. go_select (r_pick rc)
                 (process_ready (c_maxMessageProcessDuration c) (r_expired rc) h1 cb) = Some w
      \<and> cb_chans h1 (cs_ch cb) = Some q
      \<and> (w = StreamDone \<longrightarrow>
           ctx_Done (scopes h1) (cs_ctx cb)
           \<and> callbacks_deliver rc m cb (h, c) =
               Return (h1\<lparr>cb_chans := (cb_chans h1)(cs_ch cb \<mapsto> q\<lparr>closed := True\<rparr>)\<rparr>,
                       c\<lparr>c_data := AList.delete (Method m) (c_data c)\<rparr>))
      \<and> (w = Deliver \<longrightarrow>
           length (buf q) < cap q
           \<and> callbacks_deliver rc m cb (h, c) =
               Return (h1\<lparr>cb_chans := (cb_chans h1)
                            (cs_ch cb \<mapsto> q\<lparr>buf := buf q @ [\<lparr>message = m, cb_err = None\<rparr>]\<rparr>)\<rparr>,
                       c))
      \<and> (w = Deadline \<longrightarrow>
           (ctx_Done (scopes h1) (cs_ctx cb) \<or> c_maxMessageProcessDuration c \<le> 0 \<or> r_expired rc
              \<or> cap q \<le> length (buf q))
           \<and> callbacks_deliver rc m cb (h, c) =
               Return (h1\<lparr>scopes := cancel_ctx (cs_ctx cb) (scopes h1),
                          cb_chans := (cb_chans h1)(cs_ch cb \<mapsto> q\<lparr>closed := True\<rparr>)\<rparr>,
                       c\<lparr>c_data := AList.delete (Method m) (c_data c)\<rparr>)
           \<and> ctx_Done (cancel_ctx (cs_ctx cb) (scopes h1)) (cs_ctx cb))
      \<and> (cap q \<le> length (buf q) \<and> \<not> ctx_Done (scopes h1) (cs_ctx cb) \<longrightarrow> w = Deadline)
      \<and> (\<exists>s'. callbacks_deliver rc m cb (h, c) = Return s'
            \<and> (\<forall>sched n rest. sched n = rc \<longrightarrow>
                  deliver_all sched n (m # rest) (h, c) = deliver_all sched (Suc n) rest s'))"
proof -
  let ?ready = "process_ready (c_maxMessageProcessDuration c) (r_expired rc) h1 cb"
  from st obtain q where ne: "cs_ctx cb \<noteq> []" and q: "cb_chans h1 (cs_ch cb) = Some q" "\<not> closed q"
    by (rule open_streamE)
  obtain w where w: "go_select (r_pick rc) ?ready = Some w" and mem: "w \<in> set ?ready"
    using go_select_mem[OF process_ready_nonempty] by blast
  have room: "can_send (cb_chans h1 (cs_ch cb)) \<longleftrightarrow> length (buf q) < cap q"
    using q by (simp add: can_send_def)
  note sel = w[unfolded h1] and qq = q[unfolded h1]
  have A: "w = StreamDone \<longrightarrow>
           ctx_Done (scopes h1) (cs_ctx cb)
           \<and> callbacks_deliver rc m cb (h, c) =
               Return (h1\<lparr>cb_chans := (cb_chans h1)(cs_ch cb \<mapsto> q\<lparr>closed := True\<rparr>)\<rparr>,
                       c\<lparr>c_data := AList.delete (Method m) (c_data c)\<rparr>)"
    using mem deliver_StreamDone[of rc c h cb q m] sel qq
    by (auto simp: process_ready_mem h1)
  have B: "w = Deliver \<longrightarrow>
           length (buf q) < cap q
           \<and> callbacks_deliver rc m cb (h, c) =
               Return (h1\<lparr>cb_chans := (cb_chans h1)
                            (cs_ch cb \<mapsto> q\<lparr>buf := buf q @ [\<lparr>message = m, cb_err = None\<rparr>]\<rparr>)\<rparr>,
                       c)"
    using mem deliver_Deliver[of rc c h cb q m] sel qq room
    by (auto simp: process_ready_mem h1)
  have C: "w = Deadline \<longrightarrow>
           (ctx_Done (scopes h1) (cs_ctx cb) \<or> c_maxMessageProcessDuration c \<le> 0 \<or> r_expired rc
              \<or> cap q \<le> length (buf q))
           \<and> callbacks_deliver rc m cb (h, c) =
               Return (h1\<lparr>scopes := cancel_ctx (cs_ctx cb) (scopes h1),
                          cb_chans := (cb_chans h1)(cs_ch cb \<mapsto> q\<lparr>closed := True\<rparr>)\<rparr>,
                       c\<lparr>c_data := AList.delete (Method m) (c_data c)\<rparr>)
           \<and> ctx_Done (cancel_ctx (cs_ctx cb) (scopes h1)) (cs_ctx cb)"
    using mem deliver_Deadline[of rc c h cb q m] sel qq room ctx_Done_cancel[OF ne]
    by (auto simp: process_ready_mem h1)
  have D: "cap q \<le> length (buf q) \<and> \<not> ctx_Done (scopes h1) (cs_ctx cb) \<longrightarrow> w = Deadline"
    using mem room by (auto simp: process_ready_mem)
  have "w = StreamDone \<or> w = Deliver \<or> w = Deadline" by (cases w) simp_all
  then obtain s' where s': "callbacks_deliver rc m cb (h, c) = Return s'"
    using A B C by blast
  have E: "\<forall>sched n rest. sched n = rc \<longrightarrow>
                  deliver_all sched n (m # rest) (h, c) = deliver_all sched (Suc n) rest s'"
    using deliver_all_step[OF reg] s' by blast
  show ?thesis using w q(1) A B C D s' E by blast
qed

text \<open>
  \<^verbatim>\<open>process\<close> on a frame that starts with a sub-message for a registered method is that
  delivery, followed by \<^verbatim>\<open>process\<close> on the rest of the frame with the rest of the schedule.
\<close>

lemma go_bind_Return: "go_bind x Return = x"
  by (cases x) (simp_all add: go_bind_def)

lemma deliver_all_shift:
  "deliver_all sched (Suc n) ms s = deliver_all (\<lambda>k. sched (Suc k)) n ms s"
proof (induction ms arbitrary: n s)
  case Nil
  show ?case by simp
next
  case (Cons x xs)
  show ?case
  proof (cases "map_of (c_data (snd s)) (Method x)")
    case None
    then show ?thesis using Cons.IH[of n s] by simp
  next
    case (Some cb)
    show ?thesis
    proof (cases "callbacks_deliver (sched (Suc n)) x cb s")
      case (Return s')
      then show ?thesis using Some Cons.IH[of "Suc n" s'] by (simp add: go_bind_def)
    next
      case Panic
      then show ?thesis using Some by (simp add: go_bind_def)
    next
      case Blocked
      then show ?thesis using Some by (simp add: go_bind_def)
    qed
  qed
qed

lemma process_single:
  "map_of (c_data c) (Method m) = Some cb \<Longrightarrow>
   callbacks_process sched (msg\<lparr>frame_Messages := [m]\<rparr>) (h, c) = callbacks_deliver (sched 0) m cb (h, c)"
proof -
  assume reg: "map_of (c_data c) (Method m) = Some cb"
  have "deliver_all sched 0 [m] (h, c) = go_bind (callbacks_deliver (sched 0) m cb (h, c)) Return"
    using reg by (cases "callbacks_deliver (sched 0) m cb (h, c)") (simp_all add: go_bind_def)
  then show ?thesis by (simp add: callbacks_process_def go_bind_Return)
qed

lemma process_Cons:
  assumes reg: "map_of (c_data c) (Method m) = Some cb"
    and d: "callbacks_deliver (sched 0) m cb (h, c) = Return s'"
  shows "callbacks_process sched (msg\<lparr>frame_Messages := m # rest\<rparr>) (h, c)
       = callbacks_process (\<lambda>n. sched (Suc n)) (msg\<lparr>frame_Messages := rest\<rparr>) s'"
proof -
  have "deliver_all sched 0 (m # rest) (h, c) = deliver_all sched (Suc 0) rest s'"
    using reg d by (rule deliver_all_step[where sched = sched and n = 0])
  also have "\<dots> = deliver_all (\<lambda>n. sched (Suc n)) 0 rest s'"
    by (rule deliver_all_shift)
  finally have "deliver_all sched 0 (m # rest) (h, c) = deliver_all (\<lambda>n. sched (Suc n)) 0 rest s'" .
  then show ?thesis by (cases rest) (simp_all add: callbacks_process_def)
qed

text \<open>
  C5. \<^verbatim>\<open>process\<close> on a frame whose first sub-message has a registered, open stream: the
  \<^verbatim>\<open>select\<close> of that sub-message commits to one of three cases, and on the frame that
  holds only this sub-message \<^verbatim>\<open>process\<close> returns (it neither panics nor stays parked).
  When the stream's cancellation wins, the channel is closed with its buffer as it was and
  the entry is unregistered. When the send wins, the buffer had room, the message is
  appended, and the entry, the scopes and the open channel stay. When the deadline wins, the
  stream's scope is cancelled, the channel closed and the entry unregistered; this is the only
  case left for a subscriber that is not cancelled and whose buffer is full. In every case
  \<^verbatim>\<open>process\<close> on a longer frame goes on with the rest of the frame, in order, from the state
  the first delivery left.
\<close>

theorem deliver_three_way_race:
  assumes reg: "map_of (c_data c) (Method m) = Some cb"
    and h1: "h1 = interfere (r_before (sched 0)) h"
    and st: "open_stream h1 cb"
  shows "\<exists>w q. go_select (r_pick (sched 0))
                 (process_ready (c_maxMessageProcessDuration c) (r_expired (sched 0)) h1 cb) = Some w
      \<and> cb_chans h1 (cs_ch cb) = Some q
      \<and> (w = StreamDone \<longrightarrow>
           ctx_Done (scopes h1) (cs_ctx cb)
           \<and> callbacks_process sched (msg\<lparr>frame_Messages := [m]\<rparr>) (h, c) =
               Return (h1\<lparr>cb_chans := (cb_chans h1)(cs_ch cb \<mapsto> q\<lparr>closed := True\<rparr>)\<rparr>,
                       c\<lparr>c_data := AList.delete (Method m) (c_data c)\<rparr>))
      \<and> (w = Deliver \<longrightarrow>
           length (buf q) < cap q
           \<and> callbacks_process sched (msg\<lparr>frame_Messages := [m]\<rparr>) (h, c) =
               Return (h1\<lparr>cb_chans := (cb_chans h1)
                            (cs_ch cb \<mapsto> q\<lparr>buf := buf q @ [\<lparr>message = m, cb_err = None\<rparr>]\<rparr>)\<rparr>,
                       c))
      \<and> (w = Deadline \<longrightarrow>
           (ctx_Done (scopes h1) (cs_ctx cb) \<or> c_maxMessageProcessDuration c \<le> 0
              \<or> r_expired (sched 0) \<or> cap q \<le> length (buf q))
           \<and> callbacks_process sched (msg\<lparr>frame_Messages := [m]\<rparr>) (h, c) =
               Return (h1\<lparr>scopes := cancel_ctx (cs_ctx cb) (scopes h1),
                          cb_chans := (cb_chans h1)(cs_ch cb \<mapsto> q\<lparr>closed := True\<rparr>)\<rparr>,
                       c\<lparr>c_data := AList.delete (Method m) (c_data c)\<rparr>)
           \<and> ctx_Done (cancel_ctx (cs_ctx cb) (scopes h1)) (cs_ctx cb))
      \<and> (cap q \<le> length (buf q) \<and> \<not> ctx_Done (scopes h1) (cs_ctx cb) \<longrightarrow> w = Deadline)
      \<and> (\<exists>s'. callbacks_process sched (msg\<lparr>frame_Messages := [m]\<rparr>) (h, c) = Return s'
            \<and> (\<forall>rest. callbacks_process sched (msg\<lparr>frame_Messages := m # rest\<rparr>) (h, c)
                        = callbacks_process (\<lambda>n. sched (Suc n)) (msg\<lparr>frame_Messages := rest\<rparr>) s'))"
proof -
  note single = process_single[OF reg, of sched msg h]
  from deliver_outcomes[OF reg h1 st]
  obtain w q s' where w: "go_select (r_pick (sched 0))
                 (process_ready (c_maxMessageProcessDuration c) (r_expired (sched 0)) h1 cb) = Some w"
    and q: "cb_chans h1 (cs_ch cb) = Some q"
    and A: "w = StreamDone \<longrightarrow>
           ctx_Done (scopes h1) (cs_ctx cb)
           \<and> callbacks_deliver (sched 0) m cb (h, c) =
               Return (h1\<lparr>cb_chans := (cb_chans h1)(cs_ch cb \<mapsto> q\<lparr>closed := True\<rparr>)\<rparr>,
                       c\<lparr>c_data := AList.delete (Method m) (c_data c)\<rparr>)"
    and B: "w = Deliver \<longrightarrow>
           length (buf q) < cap q
           \<and> callbacks_deliver (sched 0) m cb (h, c) =
               Return (h1\<lparr>cb_chans := (cb_chans h1)
                            (cs_ch cb \<mapsto> q\<lparr>buf := buf q @ [\<lparr>message = m, cb_err = None\<rparr>]\<rparr>)\<rparr>,
                       c)"
    and C: "w = Deadline \<longrightarrow>
           (ctx_Done (scopes h1) (cs_ctx cb) \<or> c_maxMessageProcessDuration c \<le> 0
              \<or> r_expired (sched 0) \<or> cap q \<le> length (buf q))
           \<and> callbacks_deliver (sched 0) m cb (h, c) =
               Return (h1\<lparr>scopes := cancel_ctx (cs_ctx cb) (scopes h1),
                          cb_chans := (cb_chans h1)(cs_ch cb \<mapsto> q\<lparr>closed := True\<rparr>)\<rparr>,
                       c\<lparr>c_data := AList.delete (Method m) (c_data c)\<rparr>)
           \<and> ctx_Done (cancel_ctx (cs_ctx cb) (scopes h1)) (cs_ctx cb)"
    and D: "cap q \<le> length (buf q) \<and> \<not> ctx_Done (scopes h1) (cs_ctx cb) \<longrightarrow> w = Deadline"
    and s': "callbacks_deliver (sched 0) m cb (h, c) = Return s'"
    by blast
  have E: "\<forall>rest. callbacks_process sched (msg\<lparr>frame_Messages := m # rest\<rparr>) (h, c)
                        = callbacks_process (\<lambda>n. sched (Suc n)) (msg\<lparr>frame_Messages := rest\<rparr>) s'"
    using process_Cons[where sched = sched, OF reg s'] by blast
  show ?thesis
    unfolding single using w q A B C D s' E by blast
qed

subsection \<open>The invariant is kept by deliveries\<close>

lemma open_stream_cong:
  "open_stream h s \<Longrightarrow> next_chan h \<le> next_chan h' \<Longrightarrow>
   cb_chans h' (cs_ch s) = cb_chans h (cs_ch s) \<Longrightarrow> open_stream h' s"
  by (auto simp: open_stream_def split: option.splits)

lemma wf_cb_new: "wf_callbacks h (newCallbacks d)"
  by (simp add: wf_callbacks_def newCallbacks_def)

lemma wf_cb_other:
  assumes wf: "wf_callbacks h c" and reg: "map_of (c_data c) k = Some cb"
    and e: "e \<in> set (c_data c)" "fst e \<noteq> k"
  shows "cs_ch (snd e) \<noteq> cs_ch cb"
proof
  assume eq: "cs_ch (snd e) = cs_ch cb"
  have dc: "distinct (map (\<lambda>e. cs_ch (snd e)) (c_data c))" using wf by (simp add: wf_callbacks_def)
  have mem: "(k, cb) \<in> set (c_data c)" using reg by (rule map_of_SomeD)
  have "(\<lambda>e. cs_ch (snd e)) e = (\<lambda>e. cs_ch (snd e)) (k, cb)" using eq by simp
  then have "e = (k, cb)" using dc e(1) mem by (meson distinct_map inj_onD)
  then show False using e(2) by simp
qed

lemma wf_cb_drop:
  assumes wf: "wf_callbacks h c" and reg: "map_of (c_data c) k = Some cb"
  shows "wf_callbacks (h\<lparr>scopes := S, cb_chans := (cb_chans h)(cs_ch cb \<mapsto> q)\<rparr>)
           (c\<lparr>c_data := AList.delete k (c_data c)\<rparr>)"
proof -
  let ?h' = "h\<lparr>scopes := S, cb_chans := (cb_chans h)(cs_ch cb \<mapsto> q)\<rparr>"
  have d: "distinct (map fst (c_data c))" and dc: "distinct (map (\<lambda>e. cs_ch (snd e)) (c_data c))"
    and all: "\<And>e. e \<in> set (c_data c) \<Longrightarrow> open_stream h (snd e)"
    using wf by (auto simp: wf_callbacks_def list_all_iff)
  have rest: "\<And>e. e \<in> set (AList.delete k (c_data c)) \<Longrightarrow> e \<in> set (c_data c) \<and> fst e \<noteq> k"
    by (auto simp: AList.delete_eq)
  have 1: "distinct (map fst (AList.delete k (c_data c)))" using d by (rule distinct_delete)
  have 2: "distinct (map (\<lambda>e. cs_ch (snd e)) (AList.delete k (c_data c)))"
    using dc by (simp add: AList.delete_eq distinct_map_filter)
  have 3: "list_all (\<lambda>e. open_stream ?h' (snd e)) (AList.delete k (c_data c))"
    unfolding list_all_iff
  proof
    fix e assume "e \<in> set (AList.delete k (c_data c))"
    then have e: "e \<in> set (c_data c)" "fst e \<noteq> k" using rest by simp_all
    have ne: "cs_ch (snd e) \<noteq> cs_ch cb" using wf reg e by (rule wf_cb_other)
    show "open_stream ?h' (snd e)"
      by (rule open_stream_cong[OF all[OF e(1)]]) (use ne in simp_all)
  qed
  show ?thesis unfolding wf_callbacks_def using 1 2 3 by simp
qed

lemma wf_cb_put:
  assumes wf: "wf_callbacks h c" and reg: "map_of (c_data c) k = Some cb"
    and q: "\<not> closed q" "cap q = 16" "length (buf q) \<le> 16"
  shows "wf_callbacks (h\<lparr>cb_chans := (cb_chans h)(cs_ch cb \<mapsto> q)\<rparr>) c"
proof -
  let ?h' = "h\<lparr>cb_chans := (cb_chans h)(cs_ch cb \<mapsto> q)\<rparr>"
  have all: "\<And>e. e \<in> set (c_data c) \<Longrightarrow> open_stream h (snd e)"
    using wf by (auto simp: wf_callbacks_def list_all_iff)
  have "list_all (\<lambda>e. open_stream ?h' (snd e)) (c_data c)"
    unfolding list_all_iff
  proof
    fix e assume e: "e \<in> set (c_data c)"
    show "open_stream ?h' (snd e)"
    proof (cases "cs_ch (snd e) = cs_ch cb")
      case True
      then show ?thesis using all[OF e] q by (simp add: open_stream_def)
    next
      case False
      show ?thesis
        by (rule open_stream_cong[OF all[OF e]]) (use False in simp_all)
    qed
  qed
  then show ?thesis using wf by (simp add: wf_callbacks_def)
qed

lemma wf_deliver:
  assumes wf: "wf_callbacks h c" and reg: "map_of (c_data c) (Method m) = Some cb"
  shows "\<exists>h' c'. callbacks_deliver rc m cb (h, c) = Return (h', c') \<and> wf_callbacks h' c'"
proof -
  let ?h1 = "interfere (r_before rc) h"
  let ?ready = "process_ready (c_maxMessageProcessDuration c) (r_expired rc) ?h1 cb"
  have wf1: "wf_callbacks ?h1 c" using wf by (rule interfere_wf)
  have "(Method m, cb) \<in> set (c_data c)" using reg by (rule map_of_SomeD)
  then have st: "open_stream ?h1 cb" using wf1 by (auto simp: wf_callbacks_def list_all_iff)
  then obtain q where q: "cb_chans ?h1 (cs_ch cb) = Some q" "\<not> closed q" "cap q = 16"
    "length (buf q) \<le> 16"
    by (rule open_streamE)
  obtain w where w: "go_select (r_pick rc) ?ready = Some w" and mem: "w \<in> set ?ready"
    using go_select_mem[OF process_ready_nonempty] by blast
  show ?thesis
  proof (cases w)
    case StreamDone
    have "wf_callbacks (?h1\<lparr>scopes := scopes ?h1,
              cb_chans := (cb_chans ?h1)(cs_ch cb \<mapsto> q\<lparr>closed := True\<rparr>)\<rparr>)
            (c\<lparr>c_data := AList.delete (Method m) (c_data c)\<rparr>)"
      using wf1 reg by (rule wf_cb_drop)
    then show ?thesis
      using deliver_StreamDone[OF w[unfolded StreamDone] q(1,2), of m] by simp
  next
    case Deliver
    have room: "length (buf q) < cap q"
      using mem q unfolding Deliver by (simp add: process_ready_mem can_send_def)
    have "wf_callbacks (?h1\<lparr>cb_chans := (cb_chans ?h1)
                            (cs_ch cb \<mapsto> q\<lparr>buf := buf q @ [\<lparr>message = m, cb_err = None\<rparr>]\<rparr>)\<rparr>) c"
      using wf1 reg by (rule wf_cb_put) (use room q in simp_all)
    then show ?thesis
      using deliver_Deliver[OF w[unfolded Deliver] q(1,2), of m] by simp
  next
    case Deadline
    have "wf_callbacks (?h1\<lparr>scopes := cancel_ctx (cs_ctx cb) (scopes ?h1),
                          cb_chans := (cb_chans ?h1)(cs_ch cb \<mapsto> q\<lparr>closed := True\<rparr>)\<rparr>)
            (c\<lparr>c_data := AList.delete (Method m) (c_data c)\<rparr>)"
      using wf1 reg by (rule wf_cb_drop)
    then show ?thesis
      using deliver_Deadline[OF w[unfolded Deadline] q(1,2), of m] by simp
  qed
qed

lemma deliver_all_returns:
  "wf_callbacks h c \<Longrightarrow>
   \<exists>h' c'. deliver_all sched n ms (h, c) = Return (h', c') \<and> wf_callbacks h' c'"
proof (induction ms arbitrary: n h c)
  case Nil
  then show ?case by simp
next
  case (Cons m ms)
  show ?case
  proof (cases "map_of (c_data c) (Method m)")
    case None
    then show ?thesis using Cons.IH[OF Cons.prems] by simp
  next
    case (Some cb)
    from wf_deliver[OF Cons.prems Some, of "sched n"]
    obtain h1 c1 where d: "callbacks_deliver (sched n) m cb (h, c) = Return (h1, c1)"
      and wf1: "wf_callbacks h1 c1" by blast
    show ?thesis
      using Cons.IH[OF wf1, of "Suc n"] deliver_all_step[where sched = sched and n = n, OF Some d]
      by simp
  qed
qed

lemma process_returns:
  "wf_callbacks h c \<Longrightarrow>
   \<exists>h' c'. callbacks_process sched msg (h, c) = Return (h', c') \<and> wf_callbacks h' c'"
  using deliver_all_returns[of h c sched 0 "frame_Messages msg"]
  by (simp add: callbacks_process_def)

subsection \<open>Unsubscribed methods\<close>

lemma deliver_keeps_unregistered:
  "map_of (c_data c) k = None \<Longrightarrow> callbacks_deliver rc m cb (h, c) = Return (h', c') \<Longrightarrow>
   map_of (c_data c') k = None"
proof -
  assume none: "map_of (c_data c) k = None"
    and r: "callbacks_deliver rc m cb (h, c) = Return (h', c')"
  have "c' = c \<or> c' = c\<lparr>c_data := AList.delete (Method m) (c_data c)\<rparr>"
    using r unfolding callbacks_deliver_def Let_def go_bind_def
    by (simp split: option.splits cb_case.splits go.splits)
  then show ?thesis using none by (auto simp: delete_conv')
qed

lemma deliver_all_skip:
  "map_of (c_data (snd s)) (Method m) = None \<Longrightarrow>
   deliver_all sched n (ms1 @ m # ms2) s = deliver_all sched n (ms1 @ ms2) s"
proof (induction ms1 arbitrary: n s)
  case Nil
  then show ?case by simp
next
  case (Cons x xs)
  show ?case
  proof (cases "map_of (c_data (snd s)) (Method x)")
    case None
    then show ?thesis using Cons.IH[OF Cons.prems] by simp
  next
    case (Some cb)
    show ?thesis
    proof (cases "callbacks_deliver (sched n) x cb s")
      case (Return s')
      have "map_of (c_data (snd s')) (Method m) = None"
        using deliver_keeps_unregistered[of "snd s" "Method m" "sched n" x cb "fst s" "fst s'" "snd s'"]
          Cons.prems Return by simp
      then show ?thesis using Some Return Cons.IH[of s' "Suc n"] by (simp add: go_bind_def)
    next
      case Panic
      then show ?thesis using Some by (simp add: go_bind_def)
    next
      case Blocked
      then show ?thesis using Some by (simp add: go_bind_def)
    qed
  qed
qed

lemma cancel_ctx_done: "ctx_Done S c \<Longrightarrow> cancel_ctx c S = S"
  by (cases c) simp_all

text \<open>
  A sub-message for a stream that is still registered but whose scope is done: the stream is
  torn down without a delivery, or, when its buffer has room, the message may be appended.
\<close>

lemma deliver_done_stream:
  assumes h1: "h1 = interfere (r_before rc) h"
    and q: "cb_chans h1 (cs_ch cb) = Some q" "\<not> closed q"
    and dn: "ctx_Done (scopes h1) (cs_ctx cb)"
  shows "callbacks_deliver rc m cb (h, c) =
           Return (h1\<lparr>cb_chans := (cb_chans h1)(cs_ch cb \<mapsto> q\<lparr>closed := True\<rparr>)\<rparr>,
                   c\<lparr>c_data := AList.delete (Method m) (c_data c)\<rparr>)
       \<or> length (buf q) < cap q
         \<and> callbacks_deliver rc m cb (h, c) =
             Return (h1\<lparr>cb_chans := (cb_chans h1)
                          (cs_ch cb \<mapsto> q\<lparr>buf := buf q @ [\<lparr>message = m, cb_err = None\<rparr>]\<rparr>)\<rparr>,
                     c)"
proof -
  let ?ready = "process_ready (c_maxMessageProcessDuration c) (r_expired rc) h1 cb"
  obtain w where w: "go_select (r_pick rc) ?ready = Some w" and mem: "w \<in> set ?ready"
    using go_select_mem[OF process_ready_nonempty] by blast
  note sel = w[unfolded h1] and qq = q[unfolded h1]
  show ?thesis
  proof (cases w)
    case StreamDone
    then show ?thesis using deliver_StreamDone[OF sel[unfolded StreamDone] qq, of m] by (simp add: h1)
  next
    case Deliver
    have "length (buf q) < cap q"
      using mem q unfolding Deliver by (simp add: process_ready_mem can_send_def)
    then show ?thesis using deliver_Deliver[OF sel[unfolded Deliver] qq, of m] by (simp add: h1)
  next
    case Deadline
    have "cancel_ctx (cs_ctx cb) (scopes h1) = scopes h1" using dn by (rule cancel_ctx_done)
    then show ?thesis using deliver_Deadline[OF sel[unfolded Deadline] qq, of m] by (simp add: h1)
  qed
qed

text \<open>
  C9 (as amended). A push sub-message whose method has no entry in the registry: a frame that
  holds only it returns with the store and the registry unchanged, and in any frame it can be
  left out without changing what \<^verbatim>\<open>process\<close> does for the other sub-messages. A push
  sub-message whose method still has an entry, with an open channel and a scope that is done:
  \<^verbatim>\<open>process\<close> returns, and either the channel is closed with its buffer as it was and the
  entry is unregistered, or the buffer had room and the message is appended; no other entry
  and no other channel changes.
\<close>

theorem process_unsubscribed_dropped:
  "(map_of (c_data (snd s)) (Method m) = None \<longrightarrow>
      callbacks_process sched (msg\<lparr>frame_Messages := [m]\<rparr>) s = Return s
      \<and> callbacks_process sched (msg\<lparr>frame_Messages := before @ m # after\<rparr>) s
        = callbacks_process sched (msg\<lparr>frame_Messages := before @ after\<rparr>) s)
   \<and> (map_of (c_data c) (Method m) = Some cb
        \<and> cb_chans (interfere (r_before (sched 0)) h) (cs_ch cb) = Some q \<and> \<not> closed q
        \<and> ctx_Done (scopes (interfere (r_before (sched 0)) h)) (cs_ctx cb) \<longrightarrow>
      callbacks_process sched (msg\<lparr>frame_Messages := [m]\<rparr>) (h, c) =
          Return ((interfere (r_before (sched 0)) h)\<lparr>cb_chans :=
                     (cb_chans (interfere (r_before (sched 0)) h))(cs_ch cb \<mapsto> q\<lparr>closed := True\<rparr>)\<rparr>,
                  c\<lparr>c_data := AList.delete (Method m) (c_data c)\<rparr>)
      \<or> length (buf q) < cap q
        \<and> callbacks_process sched (msg\<lparr>frame_Messages := [m]\<rparr>) (h, c) =
            Return ((interfere (r_before (sched 0)) h)\<lparr>cb_chans :=
                       (cb_chans (interfere (r_before (sched 0)) h))
                         (cs_ch cb \<mapsto> q\<lparr>buf := buf q @ [\<lparr>message = m, cb_err = None\<rparr>]\<rparr>)\<rparr>,
                    c))"
proof (intro conjI impI)
  assume none: "map_of (c_data (snd s)) (Method m) = None"
  show "callbacks_process sched (msg\<lparr>frame_Messages := [m]\<rparr>) s = Return s"
    using none by (simp add: callbacks_process_def)
  have "deliver_all sched 0 (before @ m # after) s = deliver_all sched 0 (before @ after) s"
    using none by (rule deliver_all_skip)
  then show "callbacks_process sched (msg\<lparr>frame_Messages := before @ m # after\<rparr>) s
         = callbacks_process sched (msg\<lparr>frame_Messages := before @ after\<rparr>) s"
    by (simp add: callbacks_process_def)
next
  assume a: "map_of (c_data c) (Method m) = Some cb
        \<and> cb_chans (interfere (r_before (sched 0)) h) (cs_ch cb) = Some q \<and> \<not> closed q
        \<and> ctx_Done (scopes (interfere (r_before (sched 0)) h)) (cs_ctx cb)"
  have reg: "map_of (c_data c) (Method m) = Some cb" using a by (rule conjunct1)
  have q1: "cb_chans (interfere (r_before (sched 0)) h) (cs_ch cb) = Some q"
    using a by (elim conjE)
  have q2: "\<not> closed q" using a by (elim conjE)
  have dn: "ctx_Done (scopes (interfere (r_before (sched 0)) h)) (cs_ctx cb)"
    using a by (elim conjE)
  show "callbacks_process sched (msg\<lparr>frame_Messages := [m]\<rparr>) (h, c) =
          Return ((interfere (r_before (sched 0)) h)\<lparr>cb_chans :=
                     (cb_chans (interfere (r_before (sched 0)) h))(cs_ch cb \<mapsto> q\<lparr>closed := True\<rparr>)\<rparr>,
                  c\<lparr>c_data := AList.delete (Method m) (c_data c)\<rparr>)
      \<or> length (buf q) < cap q
        \<and> callbacks_process sched (msg\<lparr>frame_Messages := [m]\<rparr>) (h, c) =
            Return ((interfere (r_before (sched 0)) h)\<lparr>cb_chans :=
                       (cb_chans (interfere (r_before (sched 0)) h))
                         (cs_ch cb \<mapsto> q\<lparr>buf := buf q @ [\<lparr>message = m, cb_err = None\<rparr>]\<rparr>)\<rparr>,
                    c)"
    unfolding process_single[OF reg, of sched msg h]
    by (rule deliver_done_stream[OF refl q1 q2 dn])
qed

text \<open>
  A frame for tock and tick when only tick is subscribed; and a frame for tick after the tick
  stream was closed.
\<close>

theorem process_unsubscribed_dropped_witness:
  "map_of (c_data (snd (snd subscribed))) (Method (push ''tock'')) = None
   \<and> callbacks_process quiet ((reply 0)\<lparr>frame_Messages := [push ''tock'']\<rparr>) (snd subscribed)
       = Return (snd subscribed)
   \<and> callbacks_process quiet ((reply 0)\<lparr>frame_Messages := [] @ push ''tock'' # [push ''tick'']\<rparr>)
         (snd subscribed)
       = callbacks_process quiet ((reply 0)\<lparr>frame_Messages := [] @ [push ''tick'']\<rparr>) (snd subscribed)
   \<and> map_of (c_data (snd (snd subscribed))) (Method (push ''tick'')) = Some tick_stream
   \<and> cb_chans (interfere (r_before (quiet 0)) (CallbackStream_Close tick_stream (fst (snd subscribed))))
         (cs_ch tick_stream) = Some (make_chan 16)
   \<and> ctx_Done (scopes (interfere (r_before (quiet 0))
                          (CallbackStream_Close tick_stream (fst (snd subscribed)))))
         (cs_ctx tick_stream)
   \<and> (\<exists>s'. callbacks_process quiet ((reply 0)\<lparr>frame_Messages := [push ''tick'']\<rparr>)
              (CallbackStream_Close tick_stream (fst (snd subscribed)), snd (snd subscribed))
            = Return s')"
proof -
  let ?h = "fst (snd subscribed)" and ?c = "snd (snd subscribed)"
  let ?hc = "CallbackStream_Close tick_stream ?h"
  have none: "map_of (c_data (snd (snd subscribed))) (Method (push ''tock'')) = None"
    by (simp add: subscribed_eq push_def)
  note first = process_unsubscribed_dropped[where s = "snd subscribed" and m = "push ''tock''"
      and sched = quiet and msg = "reply 0" and before = "[]" and after = "[push ''tick'']",
      THEN conjunct1, THEN mp, OF none]
  have reg: "map_of (c_data ?c) (Method (push ''tick'')) = Some tick_stream"
    by (simp add: subscribed_eq push_def)
  have q: "cb_chans (interfere (r_before (quiet 0)) ?hc) (cs_ch tick_stream) = Some (make_chan 16)"
    by (simp add: CallbackStream_Close_def subscribed_eq quiet_def tick_stream_def)
  have dn: "ctx_Done (scopes (interfere (r_before (quiet 0)) ?hc)) (cs_ctx tick_stream)"
    by (simp add: CallbackStream_Close_def subscribed_eq quiet_def tick_stream_def ctx_Done_def)
  have hyp: "map_of (c_data ?c) (Method (push ''tick'')) = Some tick_stream
      \<and> cb_chans (interfere (r_before (quiet 0)) ?hc) (cs_ch tick_stream) = Some (make_chan 16)
      \<and> \<not> closed (make_chan 16 :: callbackResult chan)
      \<and> ctx_Done (scopes (interfere (r_before (quiet 0)) ?hc)) (cs_ctx tick_stream)"
    using reg q dn by (simp add: make_chan_def)
  note second = process_unsubscribed_dropped[where c = ?c and m = "push ''tick''"
      and cb = tick_stream and sched = quiet and h = ?hc and msg = "reply 0"
      and q = "make_chan 16",
      THEN conjunct2, THEN mp, OF hyp]
  have ex: "\<exists>s'. callbacks_process quiet ((reply 0)\<lparr>frame_Messages := [push ''tick'']\<rparr>) (?hc, ?c)
            = Return s'"
    using second by blast
  show ?thesis using none first reg q dn ex by (intro conjI) simp_all
qed

text \<open>
  The tick stream was closed by its subscriber, so its scope is done and the method has no
  live subscriber, but its entry is still registered. \<^verbatim>\<open>process\<close> on a frame with a
  sub-message for tick closes its channel and unregisters it: the registry is modified.
\<close>

theorem process_closed_stream_unregistered:
  "ctx_Done (scopes (CallbackStream_Close tick_stream (fst (snd subscribed)))) (cs_ctx tick_stream)
   \<and> c_data (snd (snd subscribed)) = [(''tick'', tick_stream)]
   \<and> callbacks_process quiet ((reply 0)\<lparr>frame_Messages := [push ''tick'']\<rparr>)
         (CallbackStream_Close tick_stream (fst (snd subscribed)), snd (snd subscribed))
       = Return ((fst (snd subscribed))\<lparr>scopes := [0 \<mapsto> Canceled], cb_chans :=
                    [0 \<mapsto> \<lparr>buf = [], cap = 16, closed = True\<rparr>]\<rparr>,
                 (snd (snd subscribed))\<lparr>c_data := []\<rparr>)"
  by (simp add: subscribed_eq CallbackStream_Close_def tick_stream_def push_def quiet_def
      callbacks_process_def callbacks_deliver_def process_ready_def make_chan_def ctx_Done_def
      go_select_def go_bind_def can_send_def cb_close_def close_def Let_def)

text \<open>
  \<^verbatim>\<open>process\<close> on a frame with one sub-message for tick: with room in the stream's
  buffer, after the stream was closed, and with the buffer full. The first appends the
  message, the others tear the stream down.
\<close>

theorem deliver_three_way_race_witness:
  "map_of (c_data (snd (snd subscribed))) (Method (push ''tick'')) = Some tick_stream
   \<and> open_stream (interfere (r_before (quiet 0)) (fst (snd subscribed))) tick_stream
   \<and> callbacks_process quiet ((reply 0)\<lparr>frame_Messages := [push ''tick'']\<rparr>) (snd subscribed)
       = Return ((fst (snd subscribed))\<lparr>cb_chans :=
                    [0 \<mapsto> \<lparr>buf = [\<lparr>message = push ''tick'', cb_err = None\<rparr>], cap = 16,
                           closed = False\<rparr>]\<rparr>,
                 snd (snd subscribed))
   \<and> callbacks_process quiet ((reply 0)\<lparr>frame_Messages := [push ''tick'']\<rparr>)
         (CallbackStream_Close tick_stream (fst (snd subscribed)), snd (snd subscribed))
       = Return ((fst (snd subscribed))\<lparr>scopes := [0 \<mapsto> Canceled], cb_chans :=
                    [0 \<mapsto> \<lparr>buf = [], cap = 16, closed = True\<rparr>]\<rparr>,
                 (snd (snd subscribed))\<lparr>c_data := []\<rparr>)
   \<and> open_stream (interfere (r_before (quiet 0)) stalled_heap) tick_stream
   \<and> callbacks_process quiet ((reply 0)\<lparr>frame_Messages := [push ''tick'']\<rparr>) (stalled_heap, snd (snd subscribed))
       = Return (stalled_heap\<lparr>scopes := [0 \<mapsto> Canceled], cb_chans :=
                    [0 \<mapsto> \<lparr>buf = replicate 16 \<lparr>message = push ''tick'', cb_err = None\<rparr>, cap = 16,
                           closed = True\<rparr>]\<rparr>,
                 (snd (snd subscribed))\<lparr>c_data := []\<rparr>)"
proof -
  let ?h = "fst (snd subscribed)" and ?c = "snd (snd subscribed)"
  have reg: "map_of (c_data ?c) (Method (push ''tick'')) = Some tick_stream"
    by (simp add: subscribed_eq push_def)
  have o1: "open_stream (interfere (r_before (quiet 0)) ?h) tick_stream"
    by (simp add: subscribed_eq quiet_def open_stream_def tick_stream_def make_chan_def)
  have o2: "open_stream (interfere (r_before (quiet 0)) stalled_heap) tick_stream"
    by (simp add: stalled_heap_def subscribed_eq quiet_def open_stream_def tick_stream_def)
  have sel1: "go_select (r_pick (quiet 0))
      (process_ready (c_maxMessageProcessDuration ?c) (r_expired (quiet 0))
         (interfere (r_before (quiet 0)) ?h) tick_stream) = Some Deliver"
    by (simp add: subscribed_eq quiet_def process_ready_def go_select_def tick_stream_def
        make_chan_def can_send_def ctx_Done_def)
  have q1: "cb_chans (interfere (r_before (quiet 0)) ?h) (cs_ch tick_stream) = Some (make_chan 16)"
    by (simp add: subscribed_eq quiet_def tick_stream_def)
  have q2: "cb_chans (interfere (r_before (quiet 0)) stalled_heap) (cs_ch tick_stream)
      = Some \<lparr>buf = replicate 16 \<lparr>message = push ''tick'', cb_err = None\<rparr>, cap = 16, closed = False\<rparr>"
    by (simp add: stalled_heap_def quiet_def tick_stream_def)
  have live2: "\<not> ctx_Done (scopes (interfere (r_before (quiet 0)) stalled_heap)) (cs_ctx tick_stream)"
    by (simp add: stalled_heap_def subscribed_eq quiet_def tick_stream_def ctx_Done_def)
  from deliver_three_way_race[where sched = quiet and msg = "reply 0" and h = ?h and c = ?c, OF reg refl o1]
  have r1: "callbacks_process quiet ((reply 0)\<lparr>frame_Messages := [push ''tick'']\<rparr>) (?h, ?c)
       = Return ((interfere (r_before (quiet 0)) ?h)\<lparr>cb_chans :=
            (cb_chans (interfere (r_before (quiet 0)) ?h))(cs_ch tick_stream \<mapsto>
               (make_chan 16)\<lparr>buf := buf (make_chan 16) @ [\<lparr>message = push ''tick'', cb_err = None\<rparr>]\<rparr>)\<rparr>,
          ?c)"
    unfolding sel1 q1 by blast
  from deliver_three_way_race[where sched = quiet and msg = "reply 0" and h = stalled_heap and c = ?c, OF reg refl o2]
  have r2: "callbacks_process quiet ((reply 0)\<lparr>frame_Messages := [push ''tick'']\<rparr>) (stalled_heap, ?c)
       = Return ((interfere (r_before (quiet 0)) stalled_heap)\<lparr>
            scopes := cancel_ctx (cs_ctx tick_stream) (scopes (interfere (r_before (quiet 0)) stalled_heap)),
            cb_chans := (cb_chans (interfere (r_before (quiet 0)) stalled_heap))(cs_ch tick_stream \<mapsto>
               \<lparr>buf = replicate 16 \<lparr>message = push ''tick'', cb_err = None\<rparr>, cap = 16, closed = False\<rparr>
               \<lparr>closed := True\<rparr>)\<rparr>,
          ?c\<lparr>c_data := AList.delete (Method (push ''tick'')) (c_data ?c)\<rparr>)"
    unfolding q2 using live2 by auto
  let ?hc = "CallbackStream_Close tick_stream ?h"
  have o3: "open_stream (interfere (r_before (quiet 0)) ?hc) tick_stream"
    by (simp add: CallbackStream_Close_def subscribed_eq quiet_def open_stream_def tick_stream_def
        make_chan_def)
  have sel3: "go_select (r_pick (quiet 0))
      (process_ready (c_maxMessageProcessDuration ?c) (r_expired (quiet 0))
         (interfere (r_before (quiet 0)) ?hc) tick_stream) = Some StreamDone"
    by (simp add: CallbackStream_Close_def subscribed_eq quiet_def process_ready_def go_select_def
        tick_stream_def make_chan_def can_send_def ctx_Done_def)
  have q3: "cb_chans (interfere (r_before (quiet 0)) ?hc) (cs_ch tick_stream) = Some (make_chan 16)"
    by (simp add: CallbackStream_Close_def subscribed_eq quiet_def tick_stream_def)
  from deliver_three_way_race[where sched = quiet and msg = "reply 0" and h = ?hc and c = ?c, OF reg refl o3]
  have r3: "callbacks_process quiet ((reply 0)\<lparr>frame_Messages := [push ''tick'']\<rparr>) (?hc, ?c)
       = Return ((interfere (r_before (quiet 0)) ?hc)\<lparr>cb_chans :=
            (cb_chans (interfere (r_before (quiet 0)) ?hc))(cs_ch tick_stream \<mapsto>
               (make_chan 16)\<lparr>closed := True\<rparr>)\<rparr>,
          ?c\<lparr>c_data := AList.delete (Method (push ''tick'')) (c_data ?c)\<rparr>)"
    unfolding sel3 q3 by blast
  have e3: "callbacks_process quiet ((reply 0)\<lparr>frame_Messages := [push ''tick'']\<rparr>)
         (CallbackStream_Close tick_stream (fst (snd subscribed)), snd (snd subscribed))
       = Return ((fst (snd subscribed))\<lparr>scopes := [0 \<mapsto> Canceled], cb_chans :=
                    [0 \<mapsto> \<lparr>buf = [], cap = 16, closed = True\<rparr>]\<rparr>,
                 (snd (snd subscribed))\<lparr>c_data := []\<rparr>)"
    using r3
    by (simp add: CallbackStream_Close_def subscribed_eq quiet_def tick_stream_def push_def
        make_chan_def ctx_Done_def)
  have e1: "callbacks_process quiet ((reply 0)\<lparr>frame_Messages := [push ''tick'']\<rparr>) (snd subscribed)
       = Return ((fst (snd subscribed))\<lparr>cb_chans :=
                    [0 \<mapsto> \<lparr>buf = [\<lparr>message = push ''tick'', cb_err = None\<rparr>], cap = 16,
                           closed = False\<rparr>]\<rparr>,
                 snd (snd subscribed))"
    using r1 by (simp add: subscribed_eq quiet_def tick_stream_def make_chan_def)
  have e2: "callbacks_process quiet ((reply 0)\<lparr>frame_Messages := [push ''tick'']\<rparr>) (stalled_heap, snd (snd subscribed))
       = Return (stalled_heap\<lparr>scopes := [0 \<mapsto> Canceled], cb_chans :=
                    [0 \<mapsto> \<lparr>buf = replicate 16 \<lparr>message = push ''tick'', cb_err = None\<rparr>, cap = 16,
                           closed = True\<rparr>]\<rparr>,
                 (snd (snd subscribed))\<lparr>c_data := []\<rparr>)"
    using r2 by (simp add: stalled_heap_def subscribed_eq quiet_def tick_stream_def push_def ctx_Done_def)
  show ?thesis using reg o1 o2 e1 e2 e3 by (intro conjI)
qed

subsection \<open>Teardown of the streams, and other facts\<close>

text \<open>
  What the callback registry does where the invocation registry does not: \<^verbatim>\<open>removeAll\<close>
  sends a \<^verbatim>\<open>context.Canceled\<close> result before it closes the channel, and \<^verbatim>\<open>Read\<close> of
  the stream then yields that error, also once the channel is drained.
\<close>

lemma removeAll_then_Read:
  "callbacks_removeAll quiet (snd subscribed)
     = Return ((fst (snd subscribed))\<lparr>cb_chans :=
                  [0 \<mapsto> \<lparr>buf = [\<lparr>message = zero_ClientMsg, cb_err = Some (ContextError Canceled)\<rparr>],
                         cap = 16, closed = True\<rparr>]\<rparr>,
               newCallbacks 5)
   \<and> Read json_Unmarshal pick args tick_stream
        ((fst (snd subscribed))\<lparr>cb_chans :=
            [0 \<mapsto> \<lparr>buf = [\<lparr>message = zero_ClientMsg, cb_err = Some (ContextError Canceled)\<rparr>],
                   cap = 16, closed = True\<rparr>]\<rparr>)
     = Return (Some (ContextError Canceled),
               (fst (snd subscribed))\<lparr>cb_chans := [0 \<mapsto> \<lparr>buf = [], cap = 16, closed = True\<rparr>]\<rparr>)
   \<and> Read json_Unmarshal pick args tick_stream
        ((fst (snd subscribed))\<lparr>cb_chans := [0 \<mapsto> \<lparr>buf = [], cap = 16, closed = True\<rparr>]\<rparr>)
     = Return (Some (ContextError Canceled),
               (fst (snd subscribed))\<lparr>cb_chans := [0 \<mapsto> \<lparr>buf = [], cap = 16, closed = True\<rparr>]\<rparr>)"
  by (simp add: subscribed_eq quiet_def tick_stream_def newCallbacks_def make_chan_def
      go_select_def go_bind_def can_send_def can_recv_def cb_send_def cb_close_def send_def
      close_def recv_def ctx_Done_def Read_def readResult_def)

text \<open>
  The \<^verbatim>\<open>select\<close> of \<^verbatim>\<open>removeAll\<close> has no deadline: on a stream that is not cancelled
  and whose buffer is full it waits for the subscriber.
\<close>

lemma removeAll_waits_for_stalled:
  "callbacks_removeAll quiet (stalled_heap, snd (snd subscribed)) = Blocked"
  by (simp add: stalled_heap_def subscribed_eq quiet_def tick_stream_def
      go_select_def go_bind_def can_send_def ctx_Done_def)

text \<open>Until its invocation is resolved, \<^verbatim>\<open>Unmarshal\<close> waits, or gives the scope's error.\<close>

lemma Unmarshal_pending:
  assumes "pending h ivc" and "inv_ctx ivc = Some ctx"
  shows "Unmarshal pick ivc h =
     (case ctx_Err (scopes h) ctx of
        None \<Rightarrow> Blocked
      | Some ca \<Rightarrow> Return (Fails (ContextError ca), h))"
proof -
  from assms(1) obtain a q where "inv_err ivc = None" "inv_ch ivc = Some a"
    "inv_chans h a = Some q" "\<not> closed q" "buf q = []"
    by (auto elim: pendingE)
  then show ?thesis using assms(2)
    by (simp add: go_select_def can_recv_def inv_chan_of_def split: option.splits)
qed

text \<open>Subscriptions keep the invariant.\<close>

lemma wf_cb_create:
  assumes wf: "wf_callbacks h c"
  shows "wf_callbacks (fst (snd (callbacks_create ctx mth (h, c))))
           (snd (snd (callbacks_create ctx mth (h, c))))"
proof (cases "fst (callbacks_create ctx mth (h, c))")
  case (Inl e)
  then have "snd (callbacks_create ctx mth (h, c)) = (h, c)"
    by (cases "map_of (c_data c) mth") (auto simp: Let_def split: if_splits)
  then show ?thesis using wf by simp
next
  case (Inr s)
  let ?s = "\<lparr>cs_ctx = next_scope h # ctx, cs_ch = next_chan h\<rparr>"
  let ?h' = "h\<lparr>scopes := (scopes h)(next_scope h := None), next_scope := Suc (next_scope h),
        cb_chans := (cb_chans h)(next_chan h \<mapsto> make_chan 16), next_chan := Suc (next_chan h)\<rparr>"
  have r: "callbacks_create ctx mth (h, c) = (Inr ?s, ?h', c\<lparr>c_data := AList.update mth ?s (c_data c)\<rparr>)"
    using Inr by (cases "map_of (c_data c) mth") (auto simp: Let_def split: if_splits)
  have d: "distinct (map fst (c_data c))" and dc: "distinct (map (\<lambda>e. cs_ch (snd e)) (c_data c))"
    and all: "\<And>e. e \<in> set (c_data c) \<Longrightarrow> open_stream h (snd e)"
    using wf by (auto simp: wf_callbacks_def list_all_iff)
  have fresh: "\<And>e. e \<in> set (c_data c) \<Longrightarrow> cs_ch (snd e) \<noteq> next_chan h"
    using all by (fastforce elim: open_streamE)
  have nf: "(\<lambda>e. cs_ch (snd e)) (mth, ?s) \<notin> (\<lambda>e. cs_ch (snd e)) ` set (c_data c)"
  proof
    assume "(\<lambda>e. cs_ch (snd e)) (mth, ?s) \<in> (\<lambda>e. cs_ch (snd e)) ` set (c_data c)"
    then obtain e where "e \<in> set (c_data c)" "cs_ch (snd e) = cs_ch ?s" by auto
    then show False using fresh[of e] by simp
  qed
  have 1: "distinct (map fst (AList.update mth ?s (c_data c)))" using d by (rule distinct_update)
  have 2: "distinct (map (\<lambda>e. cs_ch (snd e)) (AList.update mth ?s (c_data c)))"
    using dc nf by (rule distinct_map_update)
  have 3: "list_all (\<lambda>e. open_stream ?h' (snd e)) (AList.update mth ?s (c_data c))"
    unfolding list_all_iff
  proof
    fix e assume "e \<in> set (AList.update mth ?s (c_data c))"
    then have "e = (mth, ?s) \<or> e \<in> set (c_data c)"
      using set_update_subset[of mth ?s "c_data c"] by auto
    then show "open_stream ?h' (snd e)"
    proof
      assume "e = (mth, ?s)"
      then show ?thesis by (simp add: open_stream_def make_chan_def)
    next
      assume e: "e \<in> set (c_data c)"
      show ?thesis
        by (rule open_stream_cong[OF all[OF e]]) (use fresh[OF e] in simp_all)
    qed
  qed
  show ?thesis unfolding r wf_callbacks_def using 1 2 3 by simp
qed

section \<open>Properties of the handshake\<close>

subsection \<open>Negotiate\<close>

text \<open>The loop is unfolded one iteration at a time.\<close>

declare negotiate_loop.simps [simp del]

lemma loop_done: "5 \<le> i \<Longrightarrow> negotiate_loop dec Get u i s = s"
  by (subst negotiate_loop.simps) simp

lemma loop_retry:
  assumes "i < 5" "Get i u = Inr resp" "StatusCode resp \<noteq> 200" "StatusCode resp \<noteq> 503"
  shows "negotiate_loop dec Get u i (e, c, fx) =
     negotiate_loop dec Get u (Suc i)
       (Some (StatusError (Status resp)), c,
        fx\<lparr>requests := requests fx @ [u], sleeps := sleeps fx @ [60]\<rparr>)"
  using assms by (subst negotiate_loop.simps) (simp add: Let_def)

lemma loop_unavailable:
  assumes "i < 5" "Get i u = Inr resp" "StatusCode resp = 503"
  shows "negotiate_loop dec Get u i (e, c, fx) =
     (Some (StatusError (Status resp)), c, fx\<lparr>requests := requests fx @ [u]\<rparr>)"
  using assms by (subst negotiate_loop.simps) (simp add: Let_def)

lemma loop_success:
  assumes "i < 5" "Get i u = Inr resp" "StatusCode resp = 200" "Body resp = Inr body"
    "dec body = Inr parsed"
  shows "negotiate_loop dec Get u i (e, c, fx) =
     (None,
      c\<lparr>connectionToken := QueryEscape (neg_ConnectionToken parsed),
        connectionID := neg_ConnectionID parsed, Endpoint := neg_URL parsed\<rparr>,
      fx\<lparr>requests := requests fx @ [u]\<rparr>)"
  using assms by (subst negotiate_loop.simps) (simp add: Let_def)

lemma loop_retries:
  "i + n \<le> 5 \<Longrightarrow> (\<And>j. i \<le> j \<Longrightarrow> j < i + n \<Longrightarrow> retried (Get j u)) \<Longrightarrow>
   negotiate_loop dec Get u i (e, c, fx) =
     negotiate_loop dec Get u (i + n)
       (if n = 0 then e else Some (StatusError (status_of (Get (i + n - 1) u))), c,
        fx\<lparr>requests := requests fx @ replicate n u, sleeps := sleeps fx @ replicate n 60\<rparr>)"
proof (induction n arbitrary: i e fx)
  case 0
  then show ?case by simp
next
  case (Suc n)
  have "retried (Get i u)" using Suc.prems(2)[of i] by simp
  then obtain resp where resp: "Get i u = Inr resp" "StatusCode resp \<noteq> 200" "StatusCode resp \<noteq> 503"
    by (auto simp: retried_def split: sum.splits)
  have i5: "i < 5" using Suc.prems(1) by simp
  have step: "negotiate_loop dec Get u i (e, c, fx) =
     negotiate_loop dec Get u (Suc i)
       (Some (StatusError (Status resp)), c,
        fx\<lparr>requests := requests fx @ [u], sleeps := sleeps fx @ [60]\<rparr>)"
    using i5 resp by (rule loop_retry)
  have "Suc i + n \<le> 5" using Suc.prems(1) by simp
  moreover have "\<And>j. Suc i \<le> j \<Longrightarrow> j < Suc i + n \<Longrightarrow> retried (Get j u)"
    using Suc.prems(2) by simp
  ultimately have IH: "negotiate_loop dec Get u (Suc i)
       (Some (StatusError (Status resp)), c,
        fx\<lparr>requests := requests fx @ [u], sleeps := sleeps fx @ [60]\<rparr>) =
     negotiate_loop dec Get u (Suc i + n)
       (if n = 0 then Some (StatusError (Status resp))
        else Some (StatusError (status_of (Get (Suc i + n - 1) u))), c,
        (fx\<lparr>requests := requests fx @ [u], sleeps := sleeps fx @ [60]\<rparr>)
          \<lparr>requests := requests (fx\<lparr>requests := requests fx @ [u], sleeps := sleeps fx @ [60]\<rparr>)
                        @ replicate n u,
           sleeps := sleeps (fx\<lparr>requests := requests fx @ [u], sleeps := sleeps fx @ [60]\<rparr>)
                        @ replicate n 60\<rparr>)"
    by (rule Suc.IH)
  have st: "status_of (Get i u) = Status resp" using resp by (simp add: status_of_def)
  show ?case unfolding step IH using st
    by (cases n) simp_all
qed

lemma Negotiate_loop_eq:
  "Negotiate dec Get c =
     negotiate_loop dec Get (makeURL (c\<lparr>connectionToken := []\<rparr>) ''negotiate'') 0
       (None, c\<lparr>connectionToken := []\<rparr>, \<lparr>requests = [], sleeps = []\<rparr>)"
  by (simp add: Negotiate_def Let_def)

text \<open>
  C6. \<open>u\<close> is the negotiate URL, built once before the loop. After \<open>n < 5\<close> responses
  with a status other than 200 and 503, each followed by one sleep of 60 seconds, a 503 ends
  \<^verbatim>\<open>Negotiate\<close> at once with an error and without a further request or sleep, and a 200
  whose body decodes ends it with success: \<open>n + 1\<close> requests, \<open>n\<close> sleeps (4 retries for
  \<open>n = 4\<close>). Five such responses in a row end it with the error of the fifth, after five
  requests.
\<close>

theorem Negotiate_retry_policy:
  assumes u: "u = makeURL (c\<lparr>connectionToken := []\<rparr>) ''negotiate''"
  shows "(n < 5 \<and> (\<forall>j<n. retried (Get j u)) \<and> Get n u = Inr resp \<and> StatusCode resp = 503 \<longrightarrow>
            Negotiate dec Get c =
              (Some (StatusError (Status resp)), c\<lparr>connectionToken := []\<rparr>,
               \<lparr>requests = replicate (Suc n) u, sleeps = replicate n 60\<rparr>))
       \<and> (n < 5 \<and> (\<forall>j<n. retried (Get j u)) \<and> Get n u = Inr resp \<and> StatusCode resp = 200
            \<and> Body resp = Inr body \<and> dec body = Inr parsed \<longrightarrow>
            fst (Negotiate dec Get c) = None
            \<and> snd (snd (Negotiate dec Get c)) =
                 \<lparr>requests = replicate (Suc n) u, sleeps = replicate n 60\<rparr>)
       \<and> ((\<forall>j<5. retried (Get j u)) \<longrightarrow>
            Negotiate dec Get c =
              (Some (StatusError (status_of (Get 4 u))), c\<lparr>connectionToken := []\<rparr>,
               \<lparr>requests = replicate 5 u, sleeps = replicate 5 60\<rparr>))"
proof (intro conjI impI)
  assume a: "n < 5 \<and> (\<forall>j<n. retried (Get j u)) \<and> Get n u = Inr resp \<and> StatusCode resp = 503"
  have r: "negotiate_loop dec Get u 0 (None, c\<lparr>connectionToken := []\<rparr>, \<lparr>requests = [], sleeps = []\<rparr>) =
     negotiate_loop dec Get u (0 + n)
       (if n = 0 then None else Some (StatusError (status_of (Get (0 + n - 1) u))),
        c\<lparr>connectionToken := []\<rparr>,
        \<lparr>requests = [], sleeps = []\<rparr>\<lparr>requests := requests \<lparr>requests = [], sleeps = []\<rparr> @ replicate n u,
          sleeps := sleeps \<lparr>requests = [], sleeps = []\<rparr> @ replicate n 60\<rparr>)"
    using a by (intro loop_retries) simp_all
  have s: "negotiate_loop dec Get u n
       (if n = 0 then None else Some (StatusError (status_of (Get (0 + n - 1) u))),
        c\<lparr>connectionToken := []\<rparr>, \<lparr>requests = replicate n u, sleeps = replicate n 60\<rparr>)
     = (Some (StatusError (Status resp)), c\<lparr>connectionToken := []\<rparr>,
        \<lparr>requests = replicate n u, sleeps = replicate n 60\<rparr>
          \<lparr>requests := requests \<lparr>requests = replicate n u, sleeps = replicate n 60\<rparr> @ [u]\<rparr>)"
    by (rule loop_unavailable[where resp = resp]) (use a in simp_all)
  show "Negotiate dec Get c =
              (Some (StatusError (Status resp)), c\<lparr>connectionToken := []\<rparr>,
               \<lparr>requests = replicate (Suc n) u, sleeps = replicate n 60\<rparr>)"
    unfolding Negotiate_loop_eq u[symmetric] r using s
    by (simp add: replicate_append_same)
next
  assume a: "n < 5 \<and> (\<forall>j<n. retried (Get j u)) \<and> Get n u = Inr resp \<and> StatusCode resp = 200
            \<and> Body resp = Inr body \<and> dec body = Inr parsed"
  have r: "negotiate_loop dec Get u 0 (None, c\<lparr>connectionToken := []\<rparr>, \<lparr>requests = [], sleeps = []\<rparr>) =
     negotiate_loop dec Get u (0 + n)
       (if n = 0 then None else Some (StatusError (status_of (Get (0 + n - 1) u))),
        c\<lparr>connectionToken := []\<rparr>,
        \<lparr>requests = [], sleeps = []\<rparr>\<lparr>requests := requests \<lparr>requests = [], sleeps = []\<rparr> @ replicate n u,
          sleeps := sleeps \<lparr>requests = [], sleeps = []\<rparr> @ replicate n 60\<rparr>)"
    using a by (intro loop_retries) simp_all
  have s: "negotiate_loop dec Get u n
       (if n = 0 then None else Some (StatusError (status_of (Get (0 + n - 1) u))),
        c\<lparr>connectionToken := []\<rparr>, \<lparr>requests = replicate n u, sleeps = replicate n 60\<rparr>)
     = (None,
        c\<lparr>connectionToken := []\<rparr>\<lparr>connectionToken := QueryEscape (neg_ConnectionToken parsed),
          connectionID := neg_ConnectionID parsed, Endpoint := neg_URL parsed\<rparr>,
        \<lparr>requests = replicate n u, sleeps = replicate n 60\<rparr>
          \<lparr>requests := requests \<lparr>requests = replicate n u, sleeps = replicate n 60\<rparr> @ [u]\<rparr>)"
    by (rule loop_success[where resp = resp and body = body]) (use a in simp_all)
  show "fst (Negotiate dec Get c) = None"
    unfolding Negotiate_loop_eq u[symmetric] r using s by simp
  show "snd (snd (Negotiate dec Get c)) = \<lparr>requests = replicate (Suc n) u, sleeps = replicate n 60\<rparr>"
    unfolding Negotiate_loop_eq u[symmetric] r using s
    by (simp add: replicate_append_same)
next
  assume a: "\<forall>j<5. retried (Get j u)"
  have r: "negotiate_loop dec Get u 0 (None, c\<lparr>connectionToken := []\<rparr>, \<lparr>requests = [], sleeps = []\<rparr>) =
     negotiate_loop dec Get u (0 + 5)
       (if (5::nat) = 0 then None else Some (StatusError (status_of (Get (0 + 5 - 1) u))),
        c\<lparr>connectionToken := []\<rparr>,
        \<lparr>requests = [], sleeps = []\<rparr>\<lparr>requests := requests \<lparr>requests = [], sleeps = []\<rparr> @ replicate 5 u,
          sleeps := sleeps \<lparr>requests = [], sleeps = []\<rparr> @ replicate 5 60\<rparr>)"
    using a by (intro loop_retries) simp_all
  show "Negotiate dec Get c =
              (Some (StatusError (status_of (Get 4 u))), c\<lparr>connectionToken := []\<rparr>,
               \<lparr>requests = replicate 5 u, sleeps = replicate 5 60\<rparr>)"
    unfolding Negotiate_loop_eq u[symmetric] r by (simp add: loop_done)
qed

lemma loop_client:
  "negotiate_loop dec Get u i (e, c0, fx) = (e', c', fx') \<Longrightarrow>
     (e' = None \<and>
        (5 \<le> i \<and> e = None \<and> c' = c0 \<or>
         (\<exists>j resp body parsed. i \<le> j \<and> j < 5 \<and> Get j u = Inr resp \<and> StatusCode resp = 200 \<and>
            Body resp = Inr body \<and> dec body = Inr parsed \<and>
            c' = c0\<lparr>connectionToken := QueryEscape (neg_ConnectionToken parsed),
                    connectionID := neg_ConnectionID parsed, Endpoint := neg_URL parsed\<rparr>)))
     \<or> (e' \<noteq> None \<and> c' = c0)"
proof (induction "5 - i" arbitrary: i e fx)
  case 0
  then have "5 \<le> i" by simp
  then show ?case using 0 by (auto simp: loop_done)
next
  case (Suc k)
  then have i5: "i < 5" by simp
  show ?case
  proof (cases "Get i u")
    case (Inl err)
    then show ?thesis using Suc.prems i5
      by (subst (asm) negotiate_loop.simps) (auto simp: Let_def)
  next
    case (Inr resp)
    consider (ok) "StatusCode resp = 200" | (gone) "StatusCode resp = 503"
      | (again) "StatusCode resp \<noteq> 200" "StatusCode resp \<noteq> 503" by blast
    then show ?thesis
    proof cases
      case ok
      show ?thesis
      proof (cases "Body resp")
        case (Inl err)
        then show ?thesis using Suc.prems i5 Inr ok
          by (subst (asm) negotiate_loop.simps) (auto simp: Let_def)
      next
        case body: (Inr body)
        show ?thesis
        proof (cases "dec body")
          case (Inl err)
          then show ?thesis using Suc.prems i5 Inr ok body
            by (subst (asm) negotiate_loop.simps) (auto simp: Let_def)
        next
          case parsed: (Inr parsed)
          have "negotiate_loop dec Get u i (e, c0, fx) =
             (None, c0\<lparr>connectionToken := QueryEscape (neg_ConnectionToken parsed),
                connectionID := neg_ConnectionID parsed, Endpoint := neg_URL parsed\<rparr>,
              fx\<lparr>requests := requests fx @ [u]\<rparr>)"
            using i5 Inr ok body parsed by (rule loop_success)
          then show ?thesis using Suc.prems i5 Inr ok body parsed by auto
        qed
      qed
    next
      case gone
      have "negotiate_loop dec Get u i (e, c0, fx) =
         (Some (StatusError (Status resp)), c0, fx\<lparr>requests := requests fx @ [u]\<rparr>)"
        using i5 Inr gone by (rule loop_unavailable)
      then show ?thesis using Suc.prems by auto
    next
      case again
      have step: "negotiate_loop dec Get u i (e, c0, fx) =
         negotiate_loop dec Get u (Suc i)
           (Some (StatusError (Status resp)), c0,
            fx\<lparr>requests := requests fx @ [u], sleeps := sleeps fx @ [60]\<rparr>)"
        using i5 Inr again by (rule loop_retry)
      have k: "k = 5 - Suc i" using Suc.hyps(2) by simp
      have "negotiate_loop dec Get u (Suc i)
           (Some (StatusError (Status resp)), c0,
            fx\<lparr>requests := requests fx @ [u], sleeps := sleeps fx @ [60]\<rparr>) = (e', c', fx')"
        using Suc.prems step by simp
      from Suc.hyps(1)[OF k this] show ?thesis by (auto intro: Suc_leD)
    qed
  qed
qed

lemma makeURL_Path:
  "\<exists>suffix. u_Path (makeURL c command) = Endpoint c @ suffix"
  by (simp add: makeURL_def Let_def)

text \<open>
  C8. When \<^verbatim>\<open>Negotiate\<close> returns without error, some response had status 200 and a body
  that decoded; the client then holds that response's token, escaped by
  \<^verbatim>\<open>url.QueryEscape\<close>, its connection id, and its endpoint, and every URL made afterwards
  has a path that starts with that endpoint. When it returns an error, the token is empty
  and nothing else in the client has changed.
\<close>

theorem Negotiate_stores_token:
  assumes u: "u = makeURL (c\<lparr>connectionToken := []\<rparr>) ''negotiate''"
    and r: "Negotiate dec Get c = (e, c', fx)"
  shows "(e = None \<longrightarrow>
            (\<exists>j resp body parsed. j < 5 \<and> Get j u = Inr resp \<and> StatusCode resp = 200 \<and>
               Body resp = Inr body \<and> dec body = Inr parsed
               \<and> connectionToken c' = QueryEscape (neg_ConnectionToken parsed)
               \<and> connectionID c' = neg_ConnectionID parsed
               \<and> Endpoint c' = neg_URL parsed
               \<and> (\<forall>command. \<exists>suffix. u_Path (makeURL c' command) = neg_URL parsed @ suffix)
               \<and> u_Path (makeURL c' ''start'') = neg_URL parsed @ ''/start''
               \<and> u_Path (makeURL c' ''connect'') = neg_URL parsed @ ''/connect''))
       \<and> (e \<noteq> None \<longrightarrow> connectionToken c' = [] \<and> c' = c\<lparr>connectionToken := []\<rparr>)"
proof -
  have loop: "negotiate_loop dec Get u 0 (None, c\<lparr>connectionToken := []\<rparr>, \<lparr>requests = [], sleeps = []\<rparr>)
      = (e, c', fx)"
    using r unfolding Negotiate_loop_eq u[symmetric] .
  from loop_client[OF loop]
  have cases: "(e = None \<and>
         (\<exists>j resp body parsed. j < 5 \<and> Get j u = Inr resp \<and> StatusCode resp = 200 \<and>
            Body resp = Inr body \<and> dec body = Inr parsed \<and>
            c' = c\<lparr>connectionToken := []\<rparr>\<lparr>connectionToken := QueryEscape (neg_ConnectionToken parsed),
                    connectionID := neg_ConnectionID parsed, Endpoint := neg_URL parsed\<rparr>))
     \<or> (e \<noteq> None \<and> c' = c\<lparr>connectionToken := []\<rparr>)"
    by auto
  show ?thesis
  proof (intro conjI impI)
    assume "e = None"
    then obtain j resp body parsed where f: "j < 5" "Get j u = Inr resp" "StatusCode resp = 200"
      "Body resp = Inr body" "dec body = Inr parsed"
      and c': "c' = c\<lparr>connectionToken := []\<rparr>\<lparr>connectionToken := QueryEscape (neg_ConnectionToken parsed),
                    connectionID := neg_ConnectionID parsed, Endpoint := neg_URL parsed\<rparr>"
      using cases by blast
    have e: "Endpoint c' = neg_URL parsed" using c' by simp
    have "\<forall>command. \<exists>suffix. u_Path (makeURL c' command) = neg_URL parsed @ suffix"
      using makeURL_Path[of c'] e by simp
    moreover have "u_Path (makeURL c' ''start'') = neg_URL parsed @ ''/start''"
      using e by (simp add: makeURL_def Let_def)
    moreover have "u_Path (makeURL c' ''connect'') = neg_URL parsed @ ''/connect''"
      using e by (simp add: makeURL_def Let_def)
    moreover have "connectionToken c' = QueryEscape (neg_ConnectionToken parsed)"
      "connectionID c' = neg_ConnectionID parsed"
      using c' by simp_all
    ultimately show "\<exists>j resp body parsed. j < 5 \<and> Get j u = Inr resp \<and> StatusCode resp = 200 \<and>
               Body resp = Inr body \<and> dec body = Inr parsed
               \<and> connectionToken c' = QueryEscape (neg_ConnectionToken parsed)
               \<and> connectionID c' = neg_ConnectionID parsed
               \<and> Endpoint c' = neg_URL parsed
               \<and> (\<forall>command. \<exists>suffix. u_Path (makeURL c' command) = neg_URL parsed @ suffix)
               \<and> u_Path (makeURL c' ''start'') = neg_URL parsed @ ''/start''
               \<and> u_Path (makeURL c' ''connect'') = neg_URL parsed @ ''/connect''"
      using f e by blast
  next
    assume "e \<noteq> None"
    then show "connectionToken c' = []" using cases by auto
  next
    assume "e \<noteq> None"
    then show "c' = c\<lparr>connectionToken := []\<rparr>" using cases by auto
  qed
qed

lemma flaky_retried: "j < k \<Longrightarrow> retried (flaky_server k j u)"
  by (simp add: flaky_server_def retried_def)

text \<open>
  Status 500 four times, then 200: success after 5 requests and 4 sleeps. Status 500 five
  times: failure. Status 503: failure after one request.
\<close>

theorem Negotiate_retry_policy_witness:
  "fst (Negotiate decode_negotiated (flaky_server 4) example_client) = None
   \<and> snd (snd (Negotiate decode_negotiated (flaky_server 4) example_client))
       = \<lparr>requests = replicate 5 (makeURL (example_client\<lparr>connectionToken := []\<rparr>) ''negotiate''),
          sleeps = [60, 60, 60, 60]\<rparr>
   \<and> Negotiate decode_negotiated (flaky_server 5) example_client
       = (Some (StatusError ''500 Internal Server Error''), example_client\<lparr>connectionToken := []\<rparr>,
          \<lparr>requests = replicate 5 (makeURL (example_client\<lparr>connectionToken := []\<rparr>) ''negotiate''),
            sleeps = [60, 60, 60, 60, 60]\<rparr>)
   \<and> Negotiate decode_negotiated
         (\<lambda>i u. Inr \<lparr>StatusCode = 503, Status = ''503 Service Unavailable'', Body = Inr []\<rparr>)
         example_client
       = (Some (StatusError ''503 Service Unavailable''), example_client\<lparr>connectionToken := []\<rparr>,
          \<lparr>requests = [makeURL (example_client\<lparr>connectionToken := []\<rparr>) ''negotiate''], sleeps = []\<rparr>)"
proof -
  let ?u = "makeURL (example_client\<lparr>connectionToken := []\<rparr>) ''negotiate''"
  let ?ok = "\<lparr>StatusCode = 200, Status = ''200 OK'', Body = Inr ''negotiated''\<rparr>"
  let ?down = "\<lparr>StatusCode = 503, Status = ''503 Service Unavailable'', Body = Inr []\<rparr>"
  have h4: "(4::nat) < 5 \<and> (\<forall>j<4. retried (flaky_server 4 j ?u)) \<and> flaky_server 4 4 ?u = Inr ?ok
      \<and> StatusCode ?ok = 200 \<and> Body ?ok = Inr ''negotiated''
      \<and> decode_negotiated ''negotiated''
          = Inr \<lparr>neg_URL = ''/signalr2'', neg_ConnectionToken = ''tok'', neg_ConnectionID = ''cid''\<rparr>"
    by (simp add: flaky_retried) (simp add: flaky_server_def decode_negotiated_def)
  have h5: "\<forall>j<5. retried (flaky_server 5 j ?u)" by (simp add: flaky_retried)
  have h0: "(0::nat) < 5 \<and> (\<forall>j<(0::nat). retried ((\<lambda>i u. Inr ?down) j ?u)) \<and> (\<lambda>i u. Inr ?down) 0 ?u = Inr ?down
      \<and> StatusCode ?down = 503"
    by simp
  note p4 = Negotiate_retry_policy[where c = example_client and Get = "flaky_server 4"
      and dec = decode_negotiated and n = 4, OF refl, THEN conjunct2, THEN conjunct1, THEN mp, OF h4]
  note p5 = Negotiate_retry_policy[where c = example_client and Get = "flaky_server 5"
      and dec = decode_negotiated, OF refl, THEN conjunct2, THEN conjunct2, THEN mp, OF h5]
  note p0 = Negotiate_retry_policy[where c = example_client and Get = "\<lambda>i u. Inr ?down"
      and dec = decode_negotiated and n = 0, OF refl, THEN conjunct1, THEN mp, OF h0]
  have s5: "status_of (flaky_server 5 4 ?u) = ''500 Internal Server Error''"
    by (simp add: status_of_def flaky_server_def)
  show ?thesis using p4 p5 p0 s5 by (simp add: numeral_eq_Suc)
qed

text \<open>
  Scenario A of the spec, on a client that still holds a token from an earlier attempt; and a
  failed attempt on the same client.
\<close>

theorem Negotiate_stores_token_witness:
  "Negotiate decode_negotiated (flaky_server 0) (example_client\<lparr>connectionToken := ''stale''\<rparr>)
     = (None,
        example_client\<lparr>connectionToken := ''tok'', connectionID := ''cid'', Endpoint := ''/signalr2''\<rparr>,
        \<lparr>requests = [makeURL (example_client\<lparr>connectionToken := []\<rparr>) ''negotiate''], sleeps = []\<rparr>)
   \<and> u_Path (makeURL (example_client\<lparr>connectionToken := ''tok'', connectionID := ''cid'',
                         Endpoint := ''/signalr2''\<rparr>) ''start'') = ''/signalr2/start''
   \<and> u_RawQuery (makeURL (example_client\<lparr>connectionToken := ''tok'', connectionID := ''cid'',
                         Endpoint := ''/signalr2''\<rparr>) ''start'')
       = ''clientProtocol=1.5&connectionData=hub&connectionToken=tok&transport=webSockets''
   \<and> connectionToken (fst (snd (Negotiate decode_negotiated
         (\<lambda>i u. Inr \<lparr>StatusCode = 503, Status = ''503 Service Unavailable'', Body = Inr []\<rparr>)
         (example_client\<lparr>connectionToken := ''stale''\<rparr>)))) = []"
proof -
  let ?c = "example_client\<lparr>connectionToken := ''stale''\<rparr>"
  let ?c1 = "example_client\<lparr>connectionToken := ''tok'', connectionID := ''cid'', Endpoint := ''/signalr2''\<rparr>"
  let ?u = "makeURL (example_client\<lparr>connectionToken := []\<rparr>) ''negotiate''"
  let ?down = "\<lambda>(i::nat) (u::URL). (Inr \<lparr>StatusCode = 503, Status = ''503 Service Unavailable'', Body = Inr []\<rparr> :: http_result)"
  have tok: "QueryEscape ''tok'' = ''tok''"
    by (simp add: QueryEscape_def escape_byte_def unreserved_def upperhex_def)
  have r1: "Negotiate decode_negotiated (flaky_server 0) ?c
      = (None, ?c1, \<lparr>requests = [?u], sleeps = []\<rparr>)"
    unfolding Negotiate_loop_eq
    by (subst negotiate_loop.simps)
       (simp add: Let_def flaky_server_def decode_negotiated_def tok example_client_def New_def)
  have r2: "Negotiate decode_negotiated ?down ?c
      = (Some (StatusError ''503 Service Unavailable''), ?c\<lparr>connectionToken := []\<rparr>,
         \<lparr>requests = [makeURL (?c\<lparr>connectionToken := []\<rparr>) ''negotiate''], sleeps = []\<rparr>)"
    unfolding Negotiate_loop_eq
    by (subst negotiate_loop.simps) (simp add: Let_def)
  note t1 = Negotiate_stores_token[OF refl r1, THEN conjunct1, THEN mp, OF refl]
  note t2 = Negotiate_stores_token[OF refl r2, THEN conjunct2]
  have p: "u_Path (makeURL ?c1 ''start'') = ''/signalr2/start''"
    using t1 by (auto simp: decode_negotiated_def split: if_splits)
  have q: "u_RawQuery (makeURL ?c1 ''start'')
       = ''clientProtocol=1.5&connectionData=hub&connectionToken=tok&transport=webSockets''"
    by (simp add: makeURL_def example_client_def New_def QueryEscape_def escape_byte_def
        unreserved_def upperhex_def Let_def)
  have e: "connectionToken (fst (snd (Negotiate decode_negotiated ?down ?c))) = []"
    using t2 r2 by simp
  show ?thesis using r1 p q e by (intro conjI)
qed

subsection \<open>Start\<close>

lemma Start_cases:
  "Start jr jm Get c conn =
     (case Get (makeURL c ''start'') of
        Inl e \<Rightarrow> Return (Some e, c, conn)
      | Inr resp \<Rightarrow>
         (case Body resp of
            Inl e \<Rightarrow> Return (Some e, c, conn)
          | Inr body \<Rightarrow>
             (case jr body of
                Inl e \<Rightarrow> Return (Some e, c, conn)
              | Inr response \<Rightarrow>
                 if response \<noteq> ''started'' then Return (Some (StartResponse response), c, conn)
                 else
                   (case incoming conn of
                      [] \<Rightarrow> Blocked
                    | ReadFails e # rest \<Rightarrow> Return (Some e, c, conn\<lparr>incoming := rest\<rparr>)
                    | ReadFrame t p # rest \<Rightarrow>
                       if t \<noteq> TextMessage
                       then Return (Some (UnexpectedControlType t), c, conn\<lparr>incoming := rest\<rparr>)
                       else
                         (case jm p of
                            Inl e \<Rightarrow> Return (Some e, c, conn\<lparr>incoming := rest\<rparr>)
                          | Inr pcm \<Rightarrow>
                             if msg_S pcm \<noteq> 1
                             then Return (Some (UnexpectedS (msg_S pcm)), c, conn\<lparr>incoming := rest\<rparr>)
                             else Return (None, c\<lparr>Conn := Some (conn\<lparr>incoming := rest\<rparr>)\<rparr>,
                                          conn\<lparr>incoming := rest\<rparr>))))))"
  by (simp add: Start_def ReadMessage_def split: sum.splits list.splits read_result.splits)

text \<open>
  C7. \<^verbatim>\<open>Start\<close> returns without error exactly when the response decodes to started,
  the next frame of the connection is a text frame, and it decodes to a message whose
  \<^verbatim>\<open>S\<close> is 1; then the client's connection is the one passed in, one frame further. When
  it returns an error the client is unchanged and at most one frame has been read. Another
  acknowledgement, another frame type and another \<^verbatim>\<open>S\<close> value each give an error.
\<close>

theorem Start_handshake:
  "(Start jr jm Get c conn = Return (None, c', conn') \<longleftrightarrow>
      (\<exists>resp body p pcm rest.
          Get (makeURL c ''start'') = Inr resp \<and> Body resp = Inr body \<and> jr body = Inr ''started''
          \<and> incoming conn = ReadFrame TextMessage p # rest \<and> jm p = Inr pcm \<and> msg_S pcm = 1
          \<and> conn' = conn\<lparr>incoming := rest\<rparr> \<and> c' = c\<lparr>Conn := Some conn'\<rparr>))
   \<and> (Start jr jm Get c conn = Return (Some e, c', conn') \<longrightarrow>
        c' = c \<and> (incoming conn' = incoming conn \<or> incoming conn' = tl (incoming conn)))
   \<and> (Get (makeURL c ''start'') = Inr resp \<and> Body resp = Inr body \<and> jr body = Inr ack
        \<and> ack \<noteq> ''started'' \<longrightarrow>
        Start jr jm Get c conn = Return (Some (StartResponse ack), c, conn))
   \<and> (Get (makeURL c ''start'') = Inr resp \<and> Body resp = Inr body \<and> jr body = Inr ''started''
        \<and> incoming conn = ReadFrame t p # rest \<and> t \<noteq> TextMessage \<longrightarrow>
        Start jr jm Get c conn = Return (Some (UnexpectedControlType t), c, conn\<lparr>incoming := rest\<rparr>))
   \<and> (Get (makeURL c ''start'') = Inr resp \<and> Body resp = Inr body \<and> jr body = Inr ''started''
        \<and> incoming conn = ReadFrame TextMessage p # rest \<and> jm p = Inr pcm \<and> msg_S pcm \<noteq> 1 \<longrightarrow>
        Start jr jm Get c conn = Return (Some (UnexpectedS (msg_S pcm)), c, conn\<lparr>incoming := rest\<rparr>))"
proof (intro conjI impI)
  show "Start jr jm Get c conn = Return (None, c', conn') \<longleftrightarrow>
      (\<exists>resp body p pcm rest.
          Get (makeURL c ''start'') = Inr resp \<and> Body resp = Inr body \<and> jr body = Inr ''started''
          \<and> incoming conn = ReadFrame TextMessage p # rest \<and> jm p = Inr pcm \<and> msg_S pcm = 1
          \<and> conn' = conn\<lparr>incoming := rest\<rparr> \<and> c' = c\<lparr>Conn := Some conn'\<rparr>)"
    unfolding Start_cases
    by (auto split: sum.splits list.splits read_result.splits if_splits)
next
  assume "Start jr jm Get c conn = Return (Some e, c', conn')"
  then show "c' = c"
    unfolding Start_cases
    by (auto split: sum.splits list.splits read_result.splits if_splits)
next
  assume "Start jr jm Get c conn = Return (Some e, c', conn')"
  then show "incoming conn' = incoming conn \<or> incoming conn' = tl (incoming conn)"
    unfolding Start_cases
    by (auto split: sum.splits list.splits read_result.splits if_splits)
next
  assume "Get (makeURL c ''start'') = Inr resp \<and> Body resp = Inr body \<and> jr body = Inr ack
        \<and> ack \<noteq> ''started''"
  then show "Start jr jm Get c conn = Return (Some (StartResponse ack), c, conn)"
    unfolding Start_cases by simp
next
  assume "Get (makeURL c ''start'') = Inr resp \<and> Body resp = Inr body \<and> jr body = Inr ''started''
        \<and> incoming conn = ReadFrame t p # rest \<and> t \<noteq> TextMessage"
  then show "Start jr jm Get c conn = Return (Some (UnexpectedControlType t), c, conn\<lparr>incoming := rest\<rparr>)"
    unfolding Start_cases by simp
next
  assume "Get (makeURL c ''start'') = Inr resp \<and> Body resp = Inr body \<and> jr body = Inr ''started''
        \<and> incoming conn = ReadFrame TextMessage p # rest \<and> jm p = Inr pcm \<and> msg_S pcm \<noteq> 1"
  then show "Start jr jm Get c conn = Return (Some (UnexpectedS (msg_S pcm)), c, conn\<lparr>incoming := rest\<rparr>)"
    unfolding Start_cases by simp
qed

text \<open>
  Scenario C of the spec: \<^verbatim>\<open>S\<close> is 1, \<^verbatim>\<open>S\<close> is 0; and a binary frame, and an
  acknowledgement other than started.
\<close>

theorem Start_handshake_witness:
  "Start decode_response decode_frame start_server example_client
       \<lparr>incoming = [ReadFrame TextMessage ''init'']\<rparr>
     = Return (None, example_client\<lparr>Conn := Some \<lparr>incoming = []\<rparr>\<rparr>, \<lparr>incoming = []\<rparr>)
   \<and> Start decode_response decode_frame start_server example_client
       \<lparr>incoming = [ReadFrame TextMessage ''other'']\<rparr>
     = Return (Some (UnexpectedS 0), example_client, \<lparr>incoming = []\<rparr>)
   \<and> Start decode_response decode_frame start_server example_client
       \<lparr>incoming = [ReadFrame 2 ''init'']\<rparr>
     = Return (Some (UnexpectedControlType 2), example_client, \<lparr>incoming = []\<rparr>)
   \<and> Start decode_response decode_frame
       (\<lambda>u. Inr \<lparr>StatusCode = 200, Status = ''200 OK'', Body = Inr ''stopped''\<rparr>) example_client
       \<lparr>incoming = [ReadFrame TextMessage ''init'']\<rparr>
     = Return (Some (StartResponse ''stopped''), example_client,
               \<lparr>incoming = [ReadFrame TextMessage ''init'']\<rparr>)
   \<and> Conn example_client = None"
proof -
  let ?ok = "\<lparr>StatusCode = 200, Status = ''200 OK'', Body = Inr ''ack''\<rparr>"
  let ?no = "\<lparr>StatusCode = 200, Status = ''200 OK'', Body = Inr ''stopped''\<rparr>"
  let ?init = "\<lparr>msg_C = [], msg_M = [], msg_S = 1, msg_G = []\<rparr>"
  let ?other = "\<lparr>msg_C = [], msg_M = [], msg_S = 0, msg_G = []\<rparr>"
  have g: "start_server (makeURL example_client ''start'') = Inr ?ok" "Body ?ok = Inr ''ack''"
    "decode_response ''ack'' = Inr ''started''"
    by (simp_all add: start_server_def decode_response_def)
  have d: "decode_frame ''init'' = Inr ?init" "decode_frame ''other'' = Inr ?other"
    by (simp_all add: decode_frame_def)
  have ex: "\<exists>resp body p pcm rest.
          start_server (makeURL example_client ''start'') = Inr resp \<and> Body resp = Inr body
          \<and> decode_response body = Inr ''started''
          \<and> incoming \<lparr>incoming = [ReadFrame TextMessage ''init'']\<rparr> = ReadFrame TextMessage p # rest
          \<and> decode_frame p = Inr pcm \<and> msg_S pcm = 1
          \<and> \<lparr>incoming = []\<rparr> = \<lparr>incoming = [ReadFrame TextMessage ''init'']\<rparr>\<lparr>incoming := rest\<rparr>
          \<and> example_client\<lparr>Conn := Some \<lparr>incoming = []\<rparr>\<rparr> = example_client\<lparr>Conn := Some \<lparr>incoming = []\<rparr>\<rparr>"
    using g d by (intro exI[of _ ?ok] exI[of _ "''ack''"] exI[of _ "''init''"] exI[of _ ?init]
        exI[of _ "[]"]) simp
  have w1: "Start decode_response decode_frame start_server example_client
       \<lparr>incoming = [ReadFrame TextMessage ''init'']\<rparr>
     = Return (None, example_client\<lparr>Conn := Some \<lparr>incoming = []\<rparr>\<rparr>, \<lparr>incoming = []\<rparr>)"
    using Start_handshake[where jr = decode_response and jm = decode_frame and Get = start_server
        and c = example_client and conn = "\<lparr>incoming = [ReadFrame TextMessage ''init'']\<rparr>"
        and c' = "example_client\<lparr>Conn := Some \<lparr>incoming = []\<rparr>\<rparr>" and conn' = "\<lparr>incoming = []\<rparr>",
        THEN conjunct1] ex
    by blast
  have h5: "start_server (makeURL example_client ''start'') = Inr ?ok \<and> Body ?ok = Inr ''ack''
      \<and> decode_response ''ack'' = Inr ''started''
      \<and> incoming \<lparr>incoming = [ReadFrame TextMessage ''other'']\<rparr> = ReadFrame TextMessage ''other'' # []
      \<and> decode_frame ''other'' = Inr ?other \<and> msg_S ?other \<noteq> 1"
    using g d by simp
  have h4: "start_server (makeURL example_client ''start'') = Inr ?ok \<and> Body ?ok = Inr ''ack''
      \<and> decode_response ''ack'' = Inr ''started''
      \<and> incoming \<lparr>incoming = [ReadFrame 2 ''init'']\<rparr> = ReadFrame 2 ''init'' # []
      \<and> (2::go_int) \<noteq> TextMessage"
    using g by (simp add: TextMessage_def)
  have h3: "(\<lambda>u. Inr ?no) (makeURL example_client ''start'') = Inr ?no \<and> Body ?no = Inr ''stopped''
      \<and> decode_response ''stopped'' = Inr ''stopped'' \<and> ''stopped'' \<noteq> ''started''"
    by (simp add: decode_response_def)
  note w5 = Start_handshake[where jr = decode_response and jm = decode_frame and Get = start_server
        and c = example_client, THEN conjunct2, THEN conjunct2, THEN conjunct2, THEN conjunct2,
        THEN mp, OF h5]
  note w4 = Start_handshake[where jr = decode_response and jm = decode_frame and Get = start_server
        and c = example_client, THEN conjunct2, THEN conjunct2, THEN conjunct2, THEN conjunct1,
        THEN mp, OF h4]
  note w3 = Start_handshake[where jr = decode_response and jm = decode_frame and Get = "\<lambda>u. Inr ?no"
        and c = example_client and conn = "\<lparr>incoming = [ReadFrame TextMessage ''init'']\<rparr>",
        THEN conjunct2, THEN conjunct2, THEN conjunct1, THEN mp, OF h3]
  have n: "Conn example_client = None" by (simp add: example_client_def New_def)
  show ?thesis using w1 w5 w4 w3 n by simp
qed

end
